theory Spec2Isabelle
  imports Main "HOL-Library.Word" "HOL-Library.Monad_Syntax"
begin

section \<open>Common data of the render backends\<close>

text \<open>
  Pointers are addresses, integers with \<^verbatim>\<open>0\<close> for \<^verbatim>\<open>NULL\<close>.  The C type \<^verbatim>\<open>int\<close> is
  modelled by \<^typ>\<open>int\<close> (signed overflow is undefined in C and none of the inputs
  used below comes near the 32-bit range); \<^verbatim>\<open>size_t\<close> of the 32-bit targets is a
  \<^typ>\<open>32 word\<close>.
\<close>

type_synonym ptr = int

record SDL_Rect =
  rect_x :: int
  rect_y :: int
  rect_w :: int
  rect_h :: int

datatype SDL_RenderCommandType =
    SDL_RENDERCMD_NO_OP
  | SDL_RENDERCMD_SETVIEWPORT
  | SDL_RENDERCMD_SETCLIPRECT
  | SDL_RENDERCMD_SETDRAWCOLOR
  | SDL_RENDERCMD_CLEAR
  | SDL_RENDERCMD_DRAW_POINTS
  | SDL_RENDERCMD_DRAW_LINES
  | SDL_RENDERCMD_FILL_RECTS
  | SDL_RENDERCMD_COPY
  | SDL_RENDERCMD_COPY_EX
  | SDL_RENDERCMD_GEOMETRY

datatype SDL_BlendMode =
    SDL_BLENDMODE_NONE
  | SDL_BLENDMODE_BLEND
  | SDL_BLENDMODE_BLEND_PREMULTIPLIED
  | SDL_BLENDMODE_ADD
  | SDL_BLENDMODE_ADD_PREMULTIPLIED
  | SDL_BLENDMODE_MOD
  | SDL_BLENDMODE_MUL
  | SDL_BLENDMODE_INVALID

datatype SDL_ScaleMode =
    SDL_SCALEMODE_INVALID
  | SDL_SCALEMODE_NEAREST
  | SDL_SCALEMODE_LINEAR
  | SDL_SCALEMODE_PIXELART

datatype SDL_TextureAddressMode =
    SDL_TEXTURE_ADDRESS_INVALID
  | SDL_TEXTURE_ADDRESS_AUTO
  | SDL_TEXTURE_ADDRESS_CLAMP
  | SDL_TEXTURE_ADDRESS_WRAP

datatype SDL_TextureAccess =
    SDL_TEXTUREACCESS_STATIC
  | SDL_TEXTUREACCESS_STREAMING
  | SDL_TEXTUREACCESS_TARGET

text \<open>
  A queued command.  In C the payload is a union selected by \<^verbatim>\<open>command\<close>; the code
  reads the \<^verbatim>\<open>draw\<close> members only of draw commands, the \<^verbatim>\<open>viewport\<close> member only
  of SetViewport and the \<^verbatim>\<open>cliprect\<close> member only of SetClipRect, so the members are
  kept side by side.  The \<^verbatim>\<open>next\<close> pointer is the tail of the HOL list.
\<close>

record SDL_RenderCommand =
  command :: SDL_RenderCommandType
  viewport_rect :: SDL_Rect
  cliprect_enabled :: bool
  cliprect_rect :: SDL_Rect
  draw_first :: ptr
  draw_count :: "32 word"
  draw_blend :: SDL_BlendMode
  draw_texture :: ptr
  draw_texture_scale_mode :: SDL_ScaleMode
  draw_texture_address_mode_u :: SDL_TextureAddressMode
  draw_texture_address_mode_v :: SDL_TextureAddressMode

section \<open>The tile-based backend (SDL\_render\_vita\_gxm.c)\<close>

subsection \<open>Renderer data\<close>

record fragment_programs =
  fp_color :: ptr
  fp_texture :: ptr

record blend_fragment_programs =
  blend_mode_none :: fragment_programs
  blend_mode_blend :: fragment_programs
  blend_mode_add :: fragment_programs
  blend_mode_mod :: fragment_programs
  blend_mode_mul :: fragment_programs

record gxm_drawstate_cache =
  viewport :: SDL_Rect
  viewport_dirty :: bool
  viewport_is_set :: bool
  ds_texture :: ptr
  ds_target :: ptr
  fragment_program :: ptr
  vertex_program :: ptr
  last_command :: "SDL_RenderCommandType option"
  cliprect_enabled_dirty :: bool
  ds_cliprect_enabled :: bool
  cliprect_dirty :: bool
  cliprect :: SDL_Rect
  drawablew :: int
  drawableh :: int

record gxm_texture =
  gxm_tex :: ptr
  gxm_rendertarget :: ptr

record VITA_GXM_TextureData =
  tex :: gxm_texture
  vt_pitch :: nat
  scale_mode :: SDL_ScaleMode
  address_mode_u :: SDL_TextureAddressMode
  address_mode_v :: SDL_TextureAddressMode

text \<open>
  The part of \<^verbatim>\<open>VITA_GXM_RenderData\<close> that the command translator reads or writes.
  \<^verbatim>\<open>vita_textures\<close> is the heap of \<^verbatim>\<open>VITA_GXM_TextureData\<close> objects that
  \<^verbatim>\<open>texture->internal\<close> points to, indexed by the texture pointer; the projection
  matrix holds floats and is represented by the viewport size it was last built from.
\<close>

record VITA_GXM_RenderData =
  drawing :: bool
  currentBlendMode :: SDL_BlendMode
  ortho_matrix :: "int \<times> int"
  colorVertexProgram :: ptr
  colorFragmentProgram :: ptr
  textureVertexProgram :: ptr
  textureFragmentProgram :: ptr
  clearVertexProgram :: ptr
  clearFragmentProgram :: ptr
  clearVertices :: ptr
  blendFragmentPrograms :: blend_fragment_programs
  drawstate :: gxm_drawstate_cache
  vita_textures :: "ptr \<Rightarrow> VITA_GXM_TextureData"

subsection \<open>Native calls\<close>

datatype SceGxmPrimitiveType =
    SCE_GXM_PRIMITIVE_TRIANGLES
  | SCE_GXM_PRIMITIVE_LINES
  | SCE_GXM_PRIMITIVE_POINTS

datatype SceGxmPolygonMode =
    SCE_GXM_POLYGON_MODE_TRIANGLE_FILL
  | SCE_GXM_POLYGON_MODE_LINE
  | SCE_GXM_POLYGON_MODE_POINT

datatype SceGxmTextureFilter = SCE_GXM_TEXTURE_FILTER_POINT | SCE_GXM_TEXTURE_FILTER_LINEAR

datatype SceGxmTextureAddrMode = SCE_GXM_TEXTURE_ADDR_CLAMP | SCE_GXM_TEXTURE_ADDR_REPEAT

text \<open>
  The calls the translator makes on the native context, in the order made.  The float
  arguments of \<^verbatim>\<open>sceGxmSetViewport\<close> are functions of the viewport rectangle, which
  stands for them; \<^verbatim>\<open>set_clip_rectangle\<close> and \<^verbatim>\<open>unset_clip_rectangle\<close> are the
  scissor calls of the backend.  The argument of \<^verbatim>\<open>sceGxmBeginScene\<close> is the texture
  rendered to, \<open>0\<close> for the display.
\<close>

datatype gxm_call =
    sceGxmSetViewport SDL_Rect
  | unset_clip_rectangle
  | set_clip_rectangle int int int int
  | sceGxmSetVertexProgram ptr
  | sceGxmSetFragmentProgram ptr
  | sceGxmReserveVertexDefaultUniformBuffer
  | sceGxmReserveFragmentDefaultUniformBuffer
  | sceGxmSetUniformDataF_textureWvp
  | sceGxmSetUniformDataF_colorWvp
  | sceGxmSetUniformDataF_clearColor
  | gxm_texture_set_filters ptr SceGxmTextureFilter SceGxmTextureFilter
  | gxm_texture_set_address_mode ptr SceGxmTextureAddrMode SceGxmTextureAddrMode
  | sceGxmSetFragmentTexture ptr
  | sceGxmSetVertexStream ptr
  | sceGxmSetFrontPolygonMode SceGxmPolygonMode
  | sceGxmDraw SceGxmPrimitiveType "32 word"
  | sceGxmEndScene
  | sceGxmFinish
  | sceGxmBeginScene ptr

subsection \<open>Locking a texture\<close>

text \<open>
  \<^verbatim>\<open>VITA_GXM_LockTexture\<close>: the pixel pointer and pitch are computed, and when the
  texture has a render target the context is drained before the function returns.
  \<^verbatim>\<open>datap\<close> is what \<^verbatim>\<open>gxm_texture_get_datap\<close> returns and \<^verbatim>\<open>bpp\<close> is
  \<^verbatim>\<open>SDL_BYTESPERPIXEL\<close> of the texture's format.
\<close>

definition VITA_GXM_LockTexture ::
  "VITA_GXM_TextureData \<Rightarrow> ptr \<Rightarrow> int \<Rightarrow> SDL_Rect \<Rightarrow> gxm_call list \<times> bool \<times> int \<times> int" where
  "VITA_GXM_LockTexture vita_texture datap bpp rect =
     (let pixels = datap + rect_y rect * int (vt_pitch vita_texture) + rect_x rect * bpp;
          pitch = int (vt_pitch vita_texture);
          calls = (if gxm_rendertarget (tex vita_texture) \<noteq> 0 then [sceGxmFinish] else [])
      in (calls, True, pixels, pitch))"

subsection \<open>Blend mode and draw state\<close>

text \<open>
  The \<^verbatim>\<open>switch\<close> of \<^verbatim>\<open>VITA_GXM_SetBlendMode\<close>: the pair of fragment programs
  built for a blend mode (the blend pair is the initial value of \<^verbatim>\<open>in\<close> and so
  serves every mode without a case of its own).
\<close>

fun blend_programs :: "blend_fragment_programs \<Rightarrow> SDL_BlendMode \<Rightarrow> fragment_programs" where
  "blend_programs progs SDL_BLENDMODE_NONE = blend_mode_none progs"
| "blend_programs progs SDL_BLENDMODE_BLEND = blend_mode_blend progs"
| "blend_programs progs SDL_BLENDMODE_ADD = blend_mode_add progs"
| "blend_programs progs SDL_BLENDMODE_MOD = blend_mode_mod progs"
| "blend_programs progs SDL_BLENDMODE_MUL = blend_mode_mul progs"
| "blend_programs progs _ = blend_mode_blend progs"

definition VITA_GXM_SetBlendMode :: "VITA_GXM_RenderData \<Rightarrow> SDL_BlendMode \<Rightarrow> VITA_GXM_RenderData" where
  "VITA_GXM_SetBlendMode data blendMode =
     (if blendMode \<noteq> currentBlendMode data then
        (let inp = blend_programs (blendFragmentPrograms data) blendMode
         in data\<lparr>colorFragmentProgram := fp_color inp,
                 textureFragmentProgram := fp_texture inp,
                 currentBlendMode := blendMode\<rparr>)
      else data)"

text \<open>
  \<^verbatim>\<open>TranslateAddressMode\<close>: the default branch carries an \<^verbatim>\<open>SDL_assert\<close>, which is
  compiled out at the default assertion level, and returns the clamp mode.
\<close>

fun TranslateAddressMode :: "SDL_TextureAddressMode \<Rightarrow> SceGxmTextureAddrMode" where
  "TranslateAddressMode SDL_TEXTURE_ADDRESS_CLAMP = SCE_GXM_TEXTURE_ADDR_CLAMP"
| "TranslateAddressMode SDL_TEXTURE_ADDRESS_WRAP = SCE_GXM_TEXTURE_ADDR_REPEAT"
| "TranslateAddressMode _ = SCE_GXM_TEXTURE_ADDR_CLAMP"

definition ClampCliprectToViewport :: "SDL_Rect \<Rightarrow> SDL_Rect \<Rightarrow> SDL_Rect" where
  "ClampCliprectToViewport clip0 vp =
     (let clip1 = (if rect_x clip0 < 0
                   then clip0\<lparr>rect_w := rect_w clip0 + rect_x clip0, rect_x := 0\<rparr> else clip0);
          clip2 = (if rect_y clip1 < 0
                   then clip1\<lparr>rect_h := rect_h clip1 + rect_y clip1, rect_y := 0\<rparr> else clip1);
          max_x_c = rect_x clip2 + rect_w clip2;
          max_y_c = rect_y clip2 + rect_h clip2;
          max_x_v = rect_x vp + rect_w vp;
          max_y_v = rect_y vp + rect_h vp;
          clip3 = (if max_x_c > max_x_v
                   then clip2\<lparr>rect_w := rect_w clip2 - (max_x_v - max_x_c)\<rparr> else clip2);
          clip4 = (if max_y_c > max_y_v
                   then clip3\<lparr>rect_h := rect_h clip3 - (max_y_v - max_y_c)\<rparr> else clip3)
      in clip4)"


text \<open>
  \<^verbatim>\<open>SetDrawState\<close>, section by section in the order of the source.  Each section
  returns the native calls it made and the renderer data it leaves.
\<close>

definition SetDrawState_viewport :: "VITA_GXM_RenderData \<Rightarrow> gxm_call list \<times> bool \<times> VITA_GXM_RenderData" where
  "SetDrawState_viewport data =
     (if viewport_dirty (drawstate data) then
        (let vp = viewport (drawstate data);
             upd = (rect_w vp \<noteq> 0 \<and> rect_h vp \<noteq> 0);
             data1 = (if upd then data\<lparr>ortho_matrix := (rect_w vp, rect_h vp)\<rparr> else data)
         in ([sceGxmSetViewport vp], upd,
             data1\<lparr>drawstate := (drawstate data1)\<lparr>viewport_dirty := False\<rparr>\<rparr>))
      else ([], False, data))"

definition SetDrawState_cliprect_enabled :: "VITA_GXM_RenderData \<Rightarrow> gxm_call list \<times> VITA_GXM_RenderData" where
  "SetDrawState_cliprect_enabled data =
     (if cliprect_enabled_dirty (drawstate data) then
        ((if \<not> ds_cliprect_enabled (drawstate data) then [unset_clip_rectangle] else []),
         data\<lparr>drawstate := (drawstate data)\<lparr>cliprect_enabled_dirty := False\<rparr>\<rparr>)
      else ([], data))"

definition SetDrawState_cliprect :: "VITA_GXM_RenderData \<Rightarrow> gxm_call list \<times> VITA_GXM_RenderData" where
  "SetDrawState_cliprect data =
     (if (ds_cliprect_enabled (drawstate data) \<or> viewport_is_set (drawstate data))
          \<and> cliprect_dirty (drawstate data) then
        (let rect0 = cliprect (drawstate data);
             rect = (if viewport_is_set (drawstate data)
                     then ClampCliprectToViewport rect0 (viewport (drawstate data)) else rect0)
         in ([set_clip_rectangle (rect_x rect) (rect_y rect)
                (rect_x rect + rect_w rect) (rect_y rect + rect_h rect)],
             data\<lparr>drawstate := (drawstate data)\<lparr>cliprect_dirty := False\<rparr>\<rparr>))
      else ([], data))"

definition SetDrawState_programs ::
  "VITA_GXM_RenderData \<Rightarrow> ptr \<Rightarrow> bool \<Rightarrow> gxm_call list \<times> VITA_GXM_RenderData" where
  "SetDrawState_programs data texture matrix_updated =
     (let vp = (if texture \<noteq> 0 then textureVertexProgram data else colorVertexProgram data);
          fp = (if texture \<noteq> 0 then textureFragmentProgram data else colorFragmentProgram data);
          vupd = (vertex_program (drawstate data) \<noteq> vp);
          data1 = (if vupd then data\<lparr>drawstate := (drawstate data)\<lparr>vertex_program := vp\<rparr>\<rparr> else data);
          calls1 = (if vupd then [sceGxmSetVertexProgram vp] else []);
          fupd = (fragment_program (drawstate data1) \<noteq> fp);
          data2 = (if fupd then data1\<lparr>drawstate := (drawstate data1)\<lparr>fragment_program := fp\<rparr>\<rparr> else data1);
          calls2 = (if fupd then [sceGxmSetFragmentProgram fp] else []);
          program_updated = (vupd \<or> fupd);
          calls3 = (if program_updated \<or> matrix_updated then
                      (if fragment_program (drawstate data2) = textureFragmentProgram data2
                       then [sceGxmReserveVertexDefaultUniformBuffer, sceGxmSetUniformDataF_textureWvp]
                       else [sceGxmReserveVertexDefaultUniformBuffer, sceGxmSetUniformDataF_colorWvp])
                    else [])
      in (calls1 @ calls2 @ calls3, data2))"

definition SetDrawState_sampler ::
  "VITA_GXM_RenderData \<Rightarrow> SDL_RenderCommand \<Rightarrow> gxm_call list \<times> VITA_GXM_RenderData" where
  "SetDrawState_sampler data cmd =
     (let texture = draw_texture cmd in
      if texture \<noteq> 0 then
        (let vt = vita_textures data texture;
             sm = draw_texture_scale_mode cmd;
             calls1 = (if sm \<noteq> scale_mode vt then
                         (case sm of
                            SDL_SCALEMODE_PIXELART \<Rightarrow>
                              [gxm_texture_set_filters texture SCE_GXM_TEXTURE_FILTER_POINT SCE_GXM_TEXTURE_FILTER_POINT]
                          | SDL_SCALEMODE_NEAREST \<Rightarrow>
                              [gxm_texture_set_filters texture SCE_GXM_TEXTURE_FILTER_POINT SCE_GXM_TEXTURE_FILTER_POINT]
                          | SDL_SCALEMODE_LINEAR \<Rightarrow>
                              [gxm_texture_set_filters texture SCE_GXM_TEXTURE_FILTER_LINEAR SCE_GXM_TEXTURE_FILTER_LINEAR]
                          | _ \<Rightarrow> [])
                       else []);
             vt1 = (if sm \<noteq> scale_mode vt then vt\<lparr>scale_mode := sm\<rparr> else vt);
             au = draw_texture_address_mode_u cmd;
             av = draw_texture_address_mode_v cmd;
             aupd = (au \<noteq> address_mode_u vt1 \<or> av \<noteq> address_mode_v vt1);
             calls2 = (if aupd then
                         [gxm_texture_set_address_mode texture (TranslateAddressMode au) (TranslateAddressMode av)]
                       else []);
             vt2 = (if aupd then vt1\<lparr>address_mode_u := au, address_mode_v := av\<rparr> else vt1)
         in (calls1 @ calls2, data\<lparr>vita_textures := (vita_textures data)(texture := vt2)\<rparr>))
      else ([], data))"

definition SetDrawState_texture :: "VITA_GXM_RenderData \<Rightarrow> ptr \<Rightarrow> gxm_call list \<times> VITA_GXM_RenderData" where
  "SetDrawState_texture data texture =
     (if texture \<noteq> ds_texture (drawstate data) then
        ((if texture \<noteq> 0 then [sceGxmSetFragmentTexture texture] else []),
         data\<lparr>drawstate := (drawstate data)\<lparr>ds_texture := texture\<rparr>\<rparr>)
      else ([], data))"

definition SetDrawState ::
  "VITA_GXM_RenderData \<Rightarrow> SDL_RenderCommand \<Rightarrow> bool \<times> gxm_call list \<times> VITA_GXM_RenderData" where
  "SetDrawState data cmd =
     (let texture = draw_texture cmd;
          blend = draw_blend cmd;
          (calls1, matrix_updated, data1) = SetDrawState_viewport data;
          (calls2, data2) = SetDrawState_cliprect_enabled data1;
          (calls3, data3) = SetDrawState_cliprect data2;
          data4 = VITA_GXM_SetBlendMode data3 blend;
          (calls5, data5) = SetDrawState_programs data4 texture matrix_updated;
          (calls6, data6) = SetDrawState_sampler data5 cmd;
          (calls7, data7) = SetDrawState_texture data6 texture
      in (True,
          calls1 @ calls2 @ calls3 @ calls5 @ calls6 @ calls7 @ [sceGxmSetVertexStream (draw_first cmd)],
          data7))"

subsection \<open>Queueing lines\<close>

text \<open>
  \<^verbatim>\<open>VITA_GXM_QueueDrawLines\<close> for \<^verbatim>\<open>count\<close> points; \<^verbatim>\<open>vertex\<close> is the pointer that
  \<^verbatim>\<open>pool_malloc\<close> returned (\<open>0\<close> when the pool is exhausted, which the function does
  not check: the first store of the loop then goes through a null pointer, the result
  \<open>None\<close>).  The vertex contents are floats and are not represented.
\<close>

definition VITA_GXM_QueueDrawLines :: "SDL_RenderCommand \<Rightarrow> ptr \<Rightarrow> int \<Rightarrow> SDL_RenderCommand option" where
  "VITA_GXM_QueueDrawLines cmd vertex count =
     (let cmd1 = cmd\<lparr>draw_first := vertex, draw_count := word_of_int ((count - 1) * 2)\<rparr>
      in if 0 < count - 1 \<and> vertex = 0 then None else Some cmd1)"

subsection \<open>Translating the command queue\<close>

definition VITA_GXM_RenderClear :: "VITA_GXM_RenderData \<Rightarrow> gxm_call list \<times> VITA_GXM_RenderData" where
  "VITA_GXM_RenderClear data =
     (let data1 = data\<lparr>drawstate := (drawstate data)\<lparr>fragment_program := clearFragmentProgram data,
                                                     vertex_program := clearVertexProgram data\<rparr>\<rparr>
      in ([unset_clip_rectangle,
           sceGxmSetVertexProgram (clearVertexProgram data),
           sceGxmSetFragmentProgram (clearFragmentProgram data),
           sceGxmReserveFragmentDefaultUniformBuffer,
           sceGxmSetUniformDataF_clearColor,
           sceGxmSetVertexStream (clearVertices data),
           sceGxmDraw SCE_GXM_PRIMITIVE_TRIANGLES 3],
          data1\<lparr>drawstate := (drawstate data1)\<lparr>cliprect_dirty := True\<rparr>\<rparr>))"

definition cmd_SETVIEWPORT :: "VITA_GXM_RenderData \<Rightarrow> SDL_RenderCommand \<Rightarrow> VITA_GXM_RenderData" where
  "cmd_SETVIEWPORT data cmd =
     (let ds = drawstate data in
      if viewport ds \<noteq> viewport_rect cmd then
        (let vp = viewport_rect cmd;
             is_set = (rect_x vp \<noteq> 0 \<or> rect_y vp \<noteq> 0 \<or> rect_w vp \<noteq> drawablew ds \<or> rect_h vp \<noteq> drawableh ds);
             ds1 = ds\<lparr>viewport := vp, viewport_dirty := True, cliprect_dirty := True,
                      viewport_is_set := is_set\<rparr>;
             ds2 = (if \<not> ds_cliprect_enabled ds1 then
                      (if viewport_is_set ds1
                       then ds1\<lparr>cliprect := vp\<lparr>rect_x := 0, rect_y := 0\<rparr>\<rparr>
                       else ds1\<lparr>cliprect_enabled_dirty := True\<rparr>)
                    else ds1)
         in data\<lparr>drawstate := ds2\<rparr>)
      else data)"

definition cmd_SETCLIPRECT :: "VITA_GXM_RenderData \<Rightarrow> SDL_RenderCommand \<Rightarrow> VITA_GXM_RenderData" where
  "cmd_SETCLIPRECT data cmd =
     (let ds = drawstate data;
          rect = cliprect_rect cmd;
          ds1 = (if ds_cliprect_enabled ds \<noteq> cliprect_enabled cmd then
                   (let ds' = ds\<lparr>ds_cliprect_enabled := cliprect_enabled cmd, cliprect_enabled_dirty := True\<rparr>
                    in if \<not> ds_cliprect_enabled ds' \<and> viewport_is_set ds'
                       then ds'\<lparr>cliprect := (viewport ds')\<lparr>rect_x := 0, rect_y := 0\<rparr>\<rparr>
                       else ds')
                 else ds);
          ds2 = (if cliprect ds1 \<noteq> rect then ds1\<lparr>cliprect := rect, cliprect_dirty := True\<rparr> else ds1)
      in data\<lparr>drawstate := ds2\<rparr>)"

text \<open>
  The inner loop of the draw case: it walks the commands after \<^verbatim>\<open>cmd\<close> while they
  have the type, texture and blend mode of \<^verbatim>\<open>cmd\<close>, adding their counts.  It returns
  the accumulated count and the commands after \<^verbatim>\<open>finalcmd\<close>.
\<close>

fun merge_draws ::
  "SDL_RenderCommandType \<Rightarrow> ptr \<Rightarrow> SDL_BlendMode \<Rightarrow> 32 word \<Rightarrow> SDL_RenderCommand list
   \<Rightarrow> 32 word \<times> SDL_RenderCommand list" where
  "merge_draws thiscmdtype thistexture thisblend count [] = (count, [])"
| "merge_draws thiscmdtype thistexture thisblend count (nextcmd # rest) =
     (if command nextcmd \<noteq> thiscmdtype then (count, nextcmd # rest)
      else if draw_texture nextcmd \<noteq> thistexture \<or> draw_blend nextcmd \<noteq> thisblend
           then (count, nextcmd # rest)
      else merge_draws thiscmdtype thistexture thisblend (count + draw_count nextcmd) rest)"

definition draw_batch ::
  "VITA_GXM_RenderData \<Rightarrow> SDL_RenderCommand \<Rightarrow> 32 word \<Rightarrow> gxm_call list \<times> VITA_GXM_RenderData" where
  "draw_batch data cmd count =
     (let thiscmdtype = command cmd;
          (ret, calls, data1) = SetDrawState data cmd;
          calls1 = (if ret then
                      (if thiscmdtype = SDL_RENDERCMD_DRAW_POINTS then
                         [sceGxmSetFrontPolygonMode SCE_GXM_POLYGON_MODE_POINT,
                          sceGxmDraw SCE_GXM_PRIMITIVE_POINTS count,
                          sceGxmSetFrontPolygonMode SCE_GXM_POLYGON_MODE_TRIANGLE_FILL]
                       else if thiscmdtype = SDL_RENDERCMD_DRAW_LINES then
                         [sceGxmSetFrontPolygonMode SCE_GXM_POLYGON_MODE_LINE,
                          sceGxmDraw SCE_GXM_PRIMITIVE_LINES count,
                          sceGxmSetFrontPolygonMode SCE_GXM_POLYGON_MODE_TRIANGLE_FILL]
                       else [sceGxmDraw SCE_GXM_PRIMITIVE_TRIANGLES count])
                    else [])
      in (calls @ calls1, data1))"

definition is_draw_cmd :: "SDL_RenderCommandType \<Rightarrow> bool" where
  "is_draw_cmd ty = (ty = SDL_RENDERCMD_DRAW_POINTS \<or> ty = SDL_RENDERCMD_DRAW_LINES
                     \<or> ty = SDL_RENDERCMD_GEOMETRY)"

text \<open>
  The cases of the \<^verbatim>\<open>switch\<close> that are not draw commands: SetViewport and
  SetClipRect change the cached intent only, Clear is applied at once, the others do
  nothing.
\<close>

definition state_cmd :: "VITA_GXM_RenderData \<Rightarrow> SDL_RenderCommand \<Rightarrow> gxm_call list \<times> VITA_GXM_RenderData" where
  "state_cmd data cmd =
     (if command cmd = SDL_RENDERCMD_SETVIEWPORT then ([], cmd_SETVIEWPORT data cmd)
      else if command cmd = SDL_RENDERCMD_SETCLIPRECT then ([], cmd_SETCLIPRECT data cmd)
      else if command cmd = SDL_RENDERCMD_CLEAR then VITA_GXM_RenderClear data
      else ([], data))"

text \<open>The \<^verbatim>\<open>while (cmd)\<close> loop of \<^verbatim>\<open>VITA_GXM_RunCommandQueue\<close>.\<close>

function run_commands ::
  "VITA_GXM_RenderData \<Rightarrow> SDL_RenderCommand list \<Rightarrow> gxm_call list \<times> VITA_GXM_RenderData" where
  "run_commands data [] = ([], data)"
| "run_commands data (cmd # rest) =
     (if is_draw_cmd (command cmd) then
        (let (count, rest1) = merge_draws (command cmd) (draw_texture cmd) (draw_blend cmd)
                                 (draw_count cmd) rest;
             (calls, data1) = draw_batch data cmd count;
             data2 = data1\<lparr>drawstate := (drawstate data1)\<lparr>last_command := Some (command cmd)\<rparr>\<rparr>;
             (calls', data3) = run_commands data2 rest1
         in (calls @ calls', data3))
      else
        (let (calls, data1) = state_cmd data cmd;
             data2 = data1\<lparr>drawstate := (drawstate data1)\<lparr>last_command := Some (command cmd)\<rparr>\<rparr>;
             (calls', data3) = run_commands data2 rest
         in (calls @ calls', data3)))"
  by pat_completeness auto
termination
proof (relation "measure (\<lambda>(d, q). length q)", goal_cases)
  case 1
  show ?case by simp
next
  case (2 data cmd rest x xa y xb xc ya xd)
  have len: "length (snd (merge_draws ty t b c q)) \<le> length q" for ty t b c q
    by (induction q arbitrary: c) (auto intro: le_SucI)
  from len[of "command cmd" "draw_texture cmd" "draw_blend cmd" "draw_count cmd" rest] 2
  show ?case by (metis (no_types, lifting) case_prod_conv in_measure le_imp_less_Suc length_Cons snd_conv)
next
  case (3 data cmd rest x xa y xb)
  show ?case by simp
qed

text \<open>
  \<^verbatim>\<open>StartDrawing\<close>: when no scene is open it forgets the cached texture and programs,
  marks the viewport dirty and begins the scene of the target.
\<close>

definition StartDrawing :: "ptr \<Rightarrow> VITA_GXM_RenderData \<Rightarrow> gxm_call list \<times> VITA_GXM_RenderData" where
  "StartDrawing target data =
     (if drawing data then ([], data)
      else ([sceGxmBeginScene target],
            data\<lparr>drawstate := (drawstate data)\<lparr>ds_texture := 0, vertex_program := 0,
                      fragment_program := 0, last_command := None, viewport_dirty := True\<rparr>,
                  drawing := True\<rparr>))"

text \<open>
  \<^verbatim>\<open>VITA_GXM_RunCommandQueue\<close>.  The call of \<^verbatim>\<open>StartDrawing\<close> at its entry is the
  parameter \<^verbatim>\<open>start\<close>, a function from the renderer data to the native calls made and
  the renderer data left: \<open>StartDrawing target\<close> is what the source passes, and what is
  proved for every \<^verbatim>\<open>start\<close> holds for it.  \<open>w\<close> and \<open>h\<close> are the drawable size the
  function resolves from the window or the target.
\<close>

definition RunCommandQueue_entry ::
  "(VITA_GXM_RenderData \<Rightarrow> gxm_call list \<times> VITA_GXM_RenderData) \<Rightarrow> ptr \<Rightarrow> int \<Rightarrow> int
   \<Rightarrow> VITA_GXM_RenderData \<Rightarrow> gxm_call list \<times> VITA_GXM_RenderData" where
  "RunCommandQueue_entry start target w h data0 =
     (let (calls0, data) = start data0;
          data1 = data\<lparr>drawstate := (drawstate data)\<lparr>ds_target := target\<rparr>\<rparr>;
          ds = drawstate data1;
          data2 = (if w \<noteq> drawablew ds \<or> h \<noteq> drawableh ds
                   then data1\<lparr>drawstate := ds\<lparr>viewport_dirty := True, cliprect_dirty := True,
                                                 drawablew := w, drawableh := h\<rparr>\<rparr>
                   else data1)
      in (calls0, data2))"

definition VITA_GXM_RunCommandQueue ::
  "(VITA_GXM_RenderData \<Rightarrow> gxm_call list \<times> VITA_GXM_RenderData) \<Rightarrow> ptr \<Rightarrow> int \<Rightarrow> int
   \<Rightarrow> VITA_GXM_RenderData \<Rightarrow> SDL_RenderCommand list \<Rightarrow> bool \<times> gxm_call list \<times> VITA_GXM_RenderData" where
  "VITA_GXM_RunCommandQueue start target w h data0 cmds =
     (let (calls0, data2) = RunCommandQueue_entry start target w h data0;
          (calls, data3) = run_commands data2 cmds
      in (True, calls0 @ calls @ [sceGxmEndScene], data3\<lparr>drawing := False\<rparr>))"


section \<open>The VRAM-overcommit backend (the PSP renderer)\<close>

subsection \<open>Texture data and renderer data\<close>

datatype SDL_PixelFormat =
    SDL_PIXELFORMAT_UNKNOWN
  | SDL_PIXELFORMAT_BGR565
  | SDL_PIXELFORMAT_ABGR1555
  | SDL_PIXELFORMAT_ABGR4444
  | SDL_PIXELFORMAT_ABGR8888

datatype psp_format = GU_PSM_5650 | GU_PSM_5551 | GU_PSM_4444 | GU_PSM_8888

text \<open>
  \<^verbatim>\<open>SDL_BYTESPERPIXEL\<close> on the formats the renderer registers (the macro itself is
  part of the public headers).
\<close>

fun SDL_BYTESPERPIXEL :: "SDL_PixelFormat \<Rightarrow> nat" where
  "SDL_BYTESPERPIXEL SDL_PIXELFORMAT_UNKNOWN = 0"
| "SDL_BYTESPERPIXEL SDL_PIXELFORMAT_ABGR8888 = 4"
| "SDL_BYTESPERPIXEL _ = 2"

text \<open>
  The fields of \<^verbatim>\<open>SDL_Texture\<close> that the backend reads, and \<^verbatim>\<open>internal\<close>, the
  pointer to its \<^verbatim>\<open>PSP_TextureData\<close>.
\<close>

record SDL_Texture =
  access :: SDL_TextureAccess
  tex_w :: nat
  tex_h :: nat
  tex_format :: SDL_PixelFormat
  internal :: ptr

text \<open>
  \<^verbatim>\<open>PSP_TextureData\<close>.  \<^verbatim>\<open>data\<close> is the address of the pixel block and
  \<^verbatim>\<open>pixels\<close> its content in units of \<^verbatim>\<open>unsigned int\<close>, the unit in which the
  layout code copies; \<open>None\<close> is a cell of a fresh block that nothing has written.
  Each texture owns its block: every assignment to \<^verbatim>\<open>data\<close> in the source stores a
  block that was just allocated.  The two list pointers \<^verbatim>\<open>prevhotw\<close> and
  \<^verbatim>\<open>nexthotw\<close> of the objects are kept in the renderer data below, each as a map
  from the address of the object to the value of the field.
\<close>

record PSP_TextureData =
  data :: ptr
  pixels :: "32 word option list"
  size_bytes :: nat
  width :: nat
  height :: nat
  textureWidth :: nat
  textureHeight :: nat
  bits :: nat
  format :: psp_format
  pitch :: nat
  swizzled :: bool

text \<open>
  The two allocators the backend calls (\<^verbatim>\<open>vram.h\<close> and the C heap) are outside the
  repository.  They are a parameter: a record of operations on an allocator state
  \<^typ>\<open>'m\<close>, each returning the new state, with \<open>0\<close> for a failed allocation.
\<close>

record 'm mem_ops =
  vlargestblock :: "'m \<Rightarrow> nat"
  vramalloc :: "nat \<Rightarrow> 'm \<Rightarrow> ptr \<times> 'm"
  vfree :: "ptr \<Rightarrow> 'm \<Rightarrow> 'm"
  SDL_malloc :: "nat \<Rightarrow> 'm \<Rightarrow> ptr \<times> 'm"
  SDL_free :: "ptr \<Rightarrow> 'm \<Rightarrow> 'm"

text \<open>
  The part of \<^verbatim>\<open>PSP_RenderData\<close> that residency management uses; the heap of
  \<^verbatim>\<open>PSP_TextureData\<close> objects indexed by their address, with the fields
  \<^verbatim>\<open>prevhotw\<close> (more recently used target) and \<^verbatim>\<open>nexthotw\<close> (less recently used
  target) of these objects as maps of their own; and the allocator state.
\<close>

record 'm PSP_RenderData =
  boundTarget :: ptr
  most_recent_target :: ptr
  least_recent_target :: ptr
  textures :: "ptr \<Rightarrow> PSP_TextureData"
  prevhotw :: "ptr \<Rightarrow> ptr"
  nexthotw :: "ptr \<Rightarrow> ptr"
  mem :: 'm

definition InVram :: "ptr \<Rightarrow> bool" where
  "InVram p = (p < 0x04200000)"

text \<open>
  \<^verbatim>\<open>TextureNextPow2\<close>.  \<open>n\<close> starts at 2 and is doubled, so it is never 0; the
  conjunct \<open>0 < n\<close> is there for the termination proof only.  (In C \<open>n\<close> has 32 bits;
  a texture dimension is a positive \<^verbatim>\<open>int\<close>, for which the doubling stops at
  \<open>2 ^ 31\<close> at the latest.)
\<close>

function next_pow2_loop :: "nat \<Rightarrow> nat \<Rightarrow> nat" where
  "next_pow2_loop w n = (if w > n \<and> 0 < n then next_pow2_loop w (2 * n) else n)"
  by pat_completeness auto
termination
  by (relation "measure (\<lambda>(w, n). w - n)") auto

definition TextureNextPow2 :: "nat \<Rightarrow> nat" where
  "TextureNextPow2 w = (if w = 0 then 0 else next_pow2_loop w 2)"

fun PixelFormatToPSPFMT :: "SDL_PixelFormat \<Rightarrow> psp_format" where
  "PixelFormatToPSPFMT SDL_PIXELFORMAT_BGR565 = GU_PSM_5650"
| "PixelFormatToPSPFMT SDL_PIXELFORMAT_ABGR1555 = GU_PSM_5551"
| "PixelFormatToPSPFMT SDL_PIXELFORMAT_ABGR4444 = GU_PSM_4444"
| "PixelFormatToPSPFMT SDL_PIXELFORMAT_ABGR8888 = GU_PSM_8888"
| "PixelFormatToPSPFMT _ = GU_PSM_8888"

subsection \<open>The LRU list of render targets\<close>

definition LRUTargetRelink :: "'m PSP_RenderData \<Rightarrow> ptr \<Rightarrow> 'm PSP_RenderData" where
  "LRUTargetRelink d t =
     (let d1 = (if prevhotw d t \<noteq> 0
                then d\<lparr>nexthotw := (nexthotw d)(prevhotw d t := nexthotw d t)\<rparr> else d);
          d2 = (if nexthotw d1 t \<noteq> 0
                then d1\<lparr>prevhotw := (prevhotw d1)(nexthotw d1 t := prevhotw d1 t)\<rparr> else d1)
      in d2)"

definition LRUTargetPushFront :: "'m PSP_RenderData \<Rightarrow> ptr \<Rightarrow> 'm PSP_RenderData" where
  "LRUTargetPushFront d t =
     (let d1 = d\<lparr>nexthotw := (nexthotw d)(t := most_recent_target d)\<rparr>;
          d2 = (if most_recent_target d1 \<noteq> 0
                then d1\<lparr>prevhotw := (prevhotw d1)(most_recent_target d1 := t)\<rparr> else d1);
          d3 = d2\<lparr>most_recent_target := t\<rparr>
      in if least_recent_target d3 = 0 then d3\<lparr>least_recent_target := t\<rparr> else d3)"

definition LRUTargetRemove :: "'m PSP_RenderData \<Rightarrow> ptr \<Rightarrow> 'm PSP_RenderData" where
  "LRUTargetRemove d t =
     (let d1 = LRUTargetRelink d t;
          d2 = (if most_recent_target d1 = t then d1\<lparr>most_recent_target := nexthotw d1 t\<rparr> else d1);
          d3 = (if least_recent_target d2 = t then d2\<lparr>least_recent_target := prevhotw d2 t\<rparr> else d2)
      in d3\<lparr>prevhotw := (prevhotw d3)(t := 0), nexthotw := (nexthotw d3)(t := 0)\<rparr>)"

definition LRUTargetBringFront :: "'m PSP_RenderData \<Rightarrow> ptr \<Rightarrow> 'm PSP_RenderData" where
  "LRUTargetBringFront d t =
     (if most_recent_target d = t then d
      else LRUTargetPushFront (LRUTargetRemove d t) t)"

definition TextureStorageFree :: "'m mem_ops \<Rightarrow> ptr \<Rightarrow> 'm \<Rightarrow> 'm" where
  "TextureStorageFree ops storage m =
     (if InVram storage then vfree ops storage m else SDL_free ops storage m)"

subsection \<open>The layout codec\<close>

text \<open>
  The statement \<^verbatim>\<open>*block++ = *src++\<close> four times over: four cells of the source,
  from index \<open>si\<close>, are stored from index \<open>bi\<close> of the destination.  A load or a
  store outside its block is undefined behaviour in C; the result is then \<open>None\<close>.
\<close>

definition copy4 :: "'a list \<Rightarrow> nat \<Rightarrow> 'a list \<Rightarrow> int \<Rightarrow> 'a list option" where
  "copy4 src si dst bi =
     (if 0 \<le> bi \<and> nat bi + 4 \<le> length dst \<and> si + 4 \<le> length src
      then Some (dst[nat bi := src ! si, nat bi + 1 := src ! (si + 1),
                     nat bi + 2 := src ! (si + 2), nat bi + 3 := src ! (si + 3)])
      else None)"

text \<open>
  The loops of \<^verbatim>\<open>TextureSwizzle\<close>.  The first argument counts the iterations that
  remain.  \<open>bi\<close> is the index of the cell \<^verbatim>\<open>block\<close> points to (a block of 16 bytes is
  four cells, and \<^verbatim>\<open>block += 28\<close> after four stores moves 32 cells on);
  \<^verbatim>\<open>blockaddress\<close> counts bytes and is a multiple of 16 whenever it is used.
\<close>

fun swizzle_blocks :: "nat \<Rightarrow> 'a list \<Rightarrow> nat \<Rightarrow> 'a list \<Rightarrow> int \<Rightarrow> ('a list \<times> nat) option" where
  "swizzle_blocks 0 src si dst bi = Some (dst, si)"
| "swizzle_blocks (Suc n) src si dst bi =
     (case copy4 src si dst bi of
        None \<Rightarrow> None
      | Some dst' \<Rightarrow> swizzle_blocks n src (si + 4) dst' (bi + 32))"

fun swizzle_rows ::
  "nat \<Rightarrow> int \<Rightarrow> int \<Rightarrow> int \<Rightarrow> 'a list \<Rightarrow> nat \<Rightarrow> 'a list \<Rightarrow> int \<Rightarrow> 'a list option" where
  "swizzle_rows 0 j rowblocks rowblocksadd src si dst blockaddress = Some dst"
| "swizzle_rows (Suc n) j rowblocks rowblocksadd src si dst blockaddress =
     (case swizzle_blocks (nat rowblocks) src si dst (blockaddress div 4) of
        None \<Rightarrow> None
      | Some (dst', si') \<Rightarrow>
          swizzle_rows n (j + 1) rowblocks rowblocksadd src si' dst'
            ((if j mod 8 = 7 then blockaddress + rowblocksadd else blockaddress) + 16))"

text \<open>
  The loops of \<^verbatim>\<open>TextureUnswizzle\<close>: eight rows of a block, the blocks of a block
  row, and the block rows.  \<^verbatim>\<open>xdst\<close> and \<^verbatim>\<open>ydst\<close> count bytes, \<open>bi\<close> and
  \<^verbatim>\<open>dstpitch\<close> count cells.
\<close>

fun unswizzle_block :: "nat \<Rightarrow> 'a list \<Rightarrow> nat \<Rightarrow> 'a list \<Rightarrow> int \<Rightarrow> int \<Rightarrow> ('a list \<times> nat) option" where
  "unswizzle_block 0 src si dst bi dstpitch = Some (dst, si)"
| "unswizzle_block (Suc n) src si dst bi dstpitch =
     (case copy4 src si dst bi of
        None \<Rightarrow> None
      | Some dst' \<Rightarrow> unswizzle_block n src (si + 4) dst' (bi + 4 + dstpitch) dstpitch)"

fun unswizzle_blockrow :: "nat \<Rightarrow> 'a list \<Rightarrow> nat \<Rightarrow> 'a list \<Rightarrow> int \<Rightarrow> int \<Rightarrow> ('a list \<times> nat) option" where
  "unswizzle_blockrow 0 src si dst xdst dstpitch = Some (dst, si)"
| "unswizzle_blockrow (Suc n) src si dst xdst dstpitch =
     (case unswizzle_block 8 src si dst (xdst div 4) dstpitch of
        None \<Rightarrow> None
      | Some (dst', si') \<Rightarrow> unswizzle_blockrow n src si' dst' (xdst + 16) dstpitch)"

fun unswizzle_rows ::
  "nat \<Rightarrow> nat \<Rightarrow> 'a list \<Rightarrow> nat \<Rightarrow> 'a list \<Rightarrow> int \<Rightarrow> int \<Rightarrow> int \<Rightarrow> 'a list option" where
  "unswizzle_rows 0 widthblocks src si dst ydst dstpitch dstrow = Some dst"
| "unswizzle_rows (Suc n) widthblocks src si dst ydst dstpitch dstrow =
     (case unswizzle_blockrow widthblocks src si dst ydst dstpitch of
        None \<Rightarrow> None
      | Some (dst', si') \<Rightarrow> unswizzle_rows n widthblocks src si' dst' (ydst + dstrow) dstpitch dstrow)"

text \<open>Division of C, which truncates towards zero.\<close>

definition c_div :: "int \<Rightarrow> int \<Rightarrow> int" where
  "c_div a b = sgn a * sgn b * (\<bar>a\<bar> div \<bar>b\<bar>)"

text \<open>
  The layout transforms on a buffer, from the geometry of the texture as the two C
  functions compute it.  A byte width of 0 makes \<^verbatim>\<open>size / bytewidth\<close> a division by
  zero: \<open>None\<close>.  \<open>dst\<close> is the content of the destination block before the copy.
\<close>

definition swizzle_buffer :: "nat \<Rightarrow> nat \<Rightarrow> nat \<Rightarrow> 'a list \<Rightarrow> 'a list \<Rightarrow> 'a list option" where
  "swizzle_buffer texwidth texbits texsize src dst =
     (let bytewidth = int texwidth * int (texbits div 8) in
      if bytewidth = 0 then None
      else
        (let height = int texsize div bytewidth;
             rowblocks = bytewidth div 16;
             rowblocksadd = (rowblocks - 1) * 128
         in swizzle_rows (nat height) 0 rowblocks rowblocksadd src 0 dst 0))"

definition unswizzle_buffer :: "nat \<Rightarrow> nat \<Rightarrow> nat \<Rightarrow> 'a list \<Rightarrow> 'a list \<Rightarrow> 'a list option" where
  "unswizzle_buffer texwidth texbits texsize src dst =
     (let bytewidth = int texwidth * int (texbits div 8) in
      if bytewidth = 0 then None
      else
        (let height = int texsize div bytewidth;
             widthblocks = bytewidth div 16;
             heightblocks = height div 8;
             dstpitch = c_div (bytewidth - 16) 4;
             dstrow = bytewidth * 8
         in unswizzle_rows (nat heightblocks) (nat widthblocks) src 0 dst 0 dstpitch dstrow))"

text \<open>
  \<^verbatim>\<open>TextureSwizzle\<close> and \<^verbatim>\<open>TextureUnswizzle\<close> on a texture.  \<open>dst\<close> is the block the
  caller passes (\<open>0\<close> for \<^verbatim>\<open>NULL\<close>, in which case the function allocates from the C
  heap).  The result is \<open>None\<close> where the C function has undefined behaviour, and
  otherwise the returned flag, the texture and the allocator state.  The cache
  write-back at the end has no effect on this state and is left out.
\<close>

definition fresh_block :: "nat \<Rightarrow> 32 word option list" where
  "fresh_block sz = replicate (sz div 4) None"

definition TextureSwizzle ::
  "'m mem_ops \<Rightarrow> PSP_TextureData \<Rightarrow> ptr \<Rightarrow> 'm \<Rightarrow> (bool \<times> PSP_TextureData \<times> 'm) option" where
  "TextureSwizzle ops t dst m =
     (if swizzled t then Some (True, t, m)
      else if int (textureWidth t) * int (bits t div 8) = 0 then None
      else
        (let (newdata, m1) = (if dst \<noteq> 0 then (dst, m) else SDL_malloc ops (size_bytes t) m) in
         if newdata = 0 then Some (False, t, m1)
         else
           (case swizzle_buffer (textureWidth t) (bits t) (size_bytes t) (pixels t) (fresh_block (size_bytes t)) of
              None \<Rightarrow> None
            | Some px \<Rightarrow>
                Some (True, t\<lparr>data := newdata, pixels := px, swizzled := True\<rparr>,
                      TextureStorageFree ops (data t) m1))))"

definition TextureUnswizzle ::
  "'m mem_ops \<Rightarrow> PSP_TextureData \<Rightarrow> ptr \<Rightarrow> 'm \<Rightarrow> (bool \<times> PSP_TextureData \<times> 'm) option" where
  "TextureUnswizzle ops t dst m =
     (if \<not> swizzled t then Some (True, t, m)
      else if int (textureWidth t) * int (bits t div 8) = 0 then None
      else
        (let (newdata, m1) = (if dst \<noteq> 0 then (dst, m) else SDL_malloc ops (size_bytes t) m) in
         if newdata = 0 then Some (False, t, m1)
         else
           (case unswizzle_buffer (textureWidth t) (bits t) (size_bytes t) (pixels t) (fresh_block (size_bytes t)) of
              None \<Rightarrow> None
            | Some px \<Rightarrow>
                Some (True, t\<lparr>data := newdata, pixels := px, swizzled := False\<rparr>,
                      TextureStorageFree ops (data t) m1))))"

subsection \<open>Spilling and promoting\<close>

definition TextureSpillToSram ::
  "'m mem_ops \<Rightarrow> PSP_TextureData \<Rightarrow> 'm \<Rightarrow> (bool \<times> PSP_TextureData \<times> 'm) option" where
  "TextureSpillToSram ops t m =
     (if swizzled t then
        (let (sdata, m1) = SDL_malloc ops (size_bytes t) m in
         if sdata = 0 then Some (False, t, m1)
         else Some (True, t\<lparr>data := sdata\<rparr>, vfree ops (data t) m1))
      else TextureSwizzle ops t 0 m)"

text \<open>
  \<^verbatim>\<open>TexturePromoteToVram\<close> does not check the result of \<^verbatim>\<open>vramalloc\<close>: with a null
  block the swizzled target falls back to the C heap inside \<^verbatim>\<open>TextureUnswizzle\<close>, and
  the other branch copies through the null pointer (\<open>None\<close>).
\<close>

definition TexturePromoteToVram ::
  "'m mem_ops \<Rightarrow> PSP_TextureData \<Rightarrow> bool \<Rightarrow> 'm \<Rightarrow> (bool \<times> PSP_TextureData \<times> 'm) option" where
  "TexturePromoteToVram ops t target m =
     (let (tdata, m1) = vramalloc ops (size_bytes t) m in
      if swizzled t \<and> target then TextureUnswizzle ops t tdata m1
      else if tdata = 0 then None
      else Some (True, t\<lparr>data := tdata\<rparr>, SDL_free ops (data t) m1))"

definition TextureSpillLRU ::
  "'m mem_ops \<Rightarrow> nat \<Rightarrow> 'm PSP_RenderData \<Rightarrow> (bool \<times> 'm PSP_RenderData) option" where
  "TextureSpillLRU ops wanted d =
     (let lru = least_recent_target d in
      if lru \<noteq> 0 then
        (case TextureSpillToSram ops (textures d lru) (mem d) of
           None \<Rightarrow> None
         | Some (ok, t', m') \<Rightarrow>
             (let d1 = d\<lparr>textures := (textures d)(lru := t'), mem := m'\<rparr>
              in if \<not> ok then Some (False, d1) else Some (True, LRUTargetRemove d1 lru)))
      else Some (False, d))"

text \<open>
  The loop of \<^verbatim>\<open>TextureSpillTargetsForSpace\<close>.  \<open>None\<close> is a run that does not
  return: undefined behaviour inside an eviction, or a loop without end.
\<close>

partial_function (option) TextureSpillTargetsForSpace ::
  "'m mem_ops \<Rightarrow> nat \<Rightarrow> 'm PSP_RenderData \<Rightarrow> (bool \<times> 'm PSP_RenderData) option" where
  "TextureSpillTargetsForSpace ops sz d =
     (if vlargestblock ops (mem d) < sz then
        Option.bind (TextureSpillLRU ops sz d)
          (\<lambda>r. if \<not> fst r then Some (False, snd r)
                else TextureSpillTargetsForSpace ops sz (snd r))
      else Some (True, d))"

declare TextureSpillTargetsForSpace.simps [code]

subsection \<open>Binding, creating, sampling, locking and destroying\<close>

datatype gu_state = GU_STENCIL_TEST | GU_ALPHA_TEST | GU_TEXTURE_2D

text \<open>
  The calls on the GU library made by the functions below (\<^verbatim>\<open>vrelptr\<close> of an address
  is represented by the address).
\<close>

datatype psp_call =
    sceGuDrawBufferList psp_format ptr nat
  | sceGuEnable gu_state
  | sceGuDisable gu_state
  | sceGuStencilOp
  | sceGuStencilFunc
  | sceGuAlphaFunc
  | sceGuTexMode psp_format bool
  | sceGuTexImage nat nat nat ptr
  | sceGuFinish
  | sceGuSync
  | sceKernelDcacheWritebackAll

definition TextureBindAsTarget ::
  "'m mem_ops \<Rightarrow> 'm PSP_RenderData \<Rightarrow> ptr \<Rightarrow> (bool \<times> psp_call list \<times> 'm PSP_RenderData) option" where
  "TextureBindAsTarget ops d t =
     (let promoted =
            (if \<not> InVram (data (textures d t)) then
               (case TextureSpillTargetsForSpace ops (size_bytes (textures d t)) d of
                  None \<Rightarrow> None
                | Some (ok, d1) \<Rightarrow>
                    if \<not> ok then Some (False, d1)
                    else
                      (case TexturePromoteToVram ops (textures d1 t) True (mem d1) of
                         None \<Rightarrow> None
                       | Some (ok', t', m') \<Rightarrow>
                           Some (ok', d1\<lparr>textures := (textures d1)(t := t'), mem := m'\<rparr>)))
             else Some (True, d))
      in case promoted of
           None \<Rightarrow> None
         | Some (ok, d2) \<Rightarrow>
             if \<not> ok then Some (False, [], d2)
             else
               (let d3 = LRUTargetBringFront d2 t;
                    pt = textures d3 t
                in Some (True,
                     sceGuDrawBufferList (format pt) (data pt) (textureWidth pt) #
                     (if format pt = GU_PSM_5551
                      then [sceGuEnable GU_STENCIL_TEST, sceGuStencilOp, sceGuStencilFunc,
                            sceGuEnable GU_ALPHA_TEST, sceGuAlphaFunc]
                      else [sceGuDisable GU_STENCIL_TEST, sceGuDisable GU_ALPHA_TEST]),
                     d3)))"

text \<open>
  \<^verbatim>\<open>PSP_CreateTexture\<close>.  \<open>p\<close> is the address \<^verbatim>\<open>SDL_calloc\<close> returned for the new
  \<^verbatim>\<open>PSP_TextureData\<close> (\<open>0\<close> when it failed).  The object is entered into the heap of
  the model when creation succeeds (\<^verbatim>\<open>SDL_calloc\<close> has zeroed it, the two list pointers
  included); on every failing path the source frees it.  The
  pixel block of a texture that is not a target comes from \<^verbatim>\<open>SDL_calloc\<close>: an
  allocation of the C heap, filled with zeros.
\<close>

definition new_texture_data :: "SDL_Texture \<Rightarrow> PSP_TextureData" where
  "new_texture_data texture =
     (let tw = TextureNextPow2 (tex_w texture);
          th = TextureNextPow2 (tex_h texture);
          fmt = PixelFormatToPSPFMT (tex_format texture);
          pt = tw * SDL_BYTESPERPIXEL (tex_format texture)
      in \<lparr>data = 0, pixels = [], size_bytes = th * pt, width = tex_w texture, height = tex_h texture,
          textureWidth = tw, textureHeight = th,
          bits = (if fmt = GU_PSM_8888 then 32 else 16), format = fmt, pitch = pt,
          swizzled = False\<rparr>)"

definition PSP_CreateTexture ::
  "'m mem_ops \<Rightarrow> 'm PSP_RenderData \<Rightarrow> SDL_Texture \<Rightarrow> ptr
   \<Rightarrow> (bool \<times> 'm PSP_RenderData \<times> SDL_Texture) option" where
  "PSP_CreateTexture ops d texture p =
     (if p = 0 then Some (False, d, texture)
      else
        (let t = new_texture_data texture in
         if access texture = SDL_TEXTUREACCESS_TARGET then
           (case TextureSpillTargetsForSpace ops (size_bytes t) d of
              None \<Rightarrow> None
            | Some (ok, d1) \<Rightarrow>
                if \<not> ok then Some (False, d1, texture)
                else
                  (let (newdata, m1) = vramalloc ops (size_bytes t) (mem d1);
                       d2 = d1\<lparr>mem := m1\<rparr>
                   in if newdata \<noteq> 0 then
                        Some (True,
                              LRUTargetPushFront
                                (d2\<lparr>textures := (textures d2)
                                      (p := t\<lparr>data := newdata, pixels := fresh_block (size_bytes t)\<rparr>),
                                    prevhotw := (prevhotw d2)(p := 0),
                                    nexthotw := (nexthotw d2)(p := 0)\<rparr>) p,
                              texture\<lparr>internal := p\<rparr>)
                      else Some (False, d2, texture)))
         else
           (let (newdata, m1) = SDL_malloc ops (size_bytes t) (mem d);
                d2 = d\<lparr>mem := m1\<rparr>
            in if newdata \<noteq> 0 then
                 Some (True,
                       d2\<lparr>textures := (textures d2)
                             (p := t\<lparr>data := newdata, pixels := replicate (size_bytes t div 4) (Some 0)\<rparr>),
                          prevhotw := (prevhotw d2)(p := 0),
                          nexthotw := (nexthotw d2)(p := 0)\<rparr>,
                       texture\<lparr>internal := p\<rparr>)
               else Some (False, d2, texture))))"

definition TextureShouldSwizzle :: "PSP_TextureData \<Rightarrow> SDL_Texture \<Rightarrow> bool" where
  "TextureShouldSwizzle psp_texture texture =
     (\<not> (access texture = SDL_TEXTUREACCESS_TARGET \<and> InVram (data psp_texture))
      \<and> access texture \<noteq> SDL_TEXTUREACCESS_STREAMING
      \<and> (tex_w texture \<ge> 16 \<or> tex_h texture \<ge> 16))"

text \<open>
  \<^verbatim>\<open>TextureActivate\<close> ignores the result of \<^verbatim>\<open>TextureSwizzle\<close>; a failed allocation
  leaves the texture as it was.
\<close>

definition TextureActivate ::
  "'m mem_ops \<Rightarrow> 'm PSP_RenderData \<Rightarrow> SDL_Texture \<Rightarrow> (psp_call list \<times> 'm PSP_RenderData) option" where
  "TextureActivate ops d texture =
     (let p = internal texture;
          swz = (if TextureShouldSwizzle (textures d p) texture
                 then (case TextureSwizzle ops (textures d p) 0 (mem d) of
                         None \<Rightarrow> None
                       | Some (ok, t', m') \<Rightarrow> Some (d\<lparr>textures := (textures d)(p := t'), mem := m'\<rparr>))
                 else Some d)
      in case swz of
           None \<Rightarrow> None
         | Some d1 \<Rightarrow>
             (let pt = textures d1 p
              in Some ([sceGuTexMode (format pt) (swizzled pt),
                        sceGuTexImage (textureWidth pt) (textureHeight pt) (textureWidth pt) (data pt)],
                       d1)))"

text \<open>
  \<^verbatim>\<open>PSP_LockTexture\<close>: the address of the first pixel of the rectangle inside the
  block, and the pitch.  It makes no call.
\<close>

definition PSP_LockTexture ::
  "PSP_TextureData \<Rightarrow> SDL_Texture \<Rightarrow> SDL_Rect \<Rightarrow> psp_call list \<times> bool \<times> int \<times> int" where
  "PSP_LockTexture psp_texture texture rect =
     ([], True,
      data psp_texture + rect_y rect * int (pitch psp_texture)
        + rect_x rect * int (SDL_BYTESPERPIXEL (tex_format texture)),
      int (pitch psp_texture))"

definition PSP_DestroyTexture ::
  "'m mem_ops \<Rightarrow> 'm PSP_RenderData \<Rightarrow> SDL_Texture \<Rightarrow> 'm PSP_RenderData \<times> SDL_Texture" where
  "PSP_DestroyTexture ops d texture =
     (let p = internal texture in
      if p = 0 then (d, texture)
      else
        (let d1 = LRUTargetRemove d p;
             d2 = d1\<lparr>mem := TextureStorageFree ops (data (textures d1 p)) (mem d1)\<rparr>
         in (d2, texture\<lparr>internal := 0\<rparr>)))"


section \<open>Notions used in the statements\<close>

subsection \<open>Projections of a trace of native calls\<close>

fun is_draw_call :: "gxm_call \<Rightarrow> bool" where
  "is_draw_call (sceGxmDraw p n) = True"
| "is_draw_call _ = False"

definition draw_calls :: "gxm_call list \<Rightarrow> gxm_call list" where
  "draw_calls cs = filter is_draw_call cs"

definition joins :: "SDL_RenderCommand \<Rightarrow> SDL_RenderCommand \<Rightarrow> bool" where
  "joins a b = (is_draw_cmd (command a) \<and> command b = command a
                 \<and> draw_texture b = draw_texture a \<and> draw_blend b = draw_blend a)"

definition primitive_of :: "SDL_RenderCommandType \<Rightarrow> SceGxmPrimitiveType" where
  "primitive_of ty = (if ty = SDL_RENDERCMD_DRAW_POINTS then SCE_GXM_PRIMITIVE_POINTS
                      else if ty = SDL_RENDERCMD_DRAW_LINES then SCE_GXM_PRIMITIVE_LINES
                      else SCE_GXM_PRIMITIVE_TRIANGLES)"

fun is_program_bind :: "gxm_call \<Rightarrow> bool" where
  "is_program_bind (sceGxmSetVertexProgram p) = True"
| "is_program_bind (sceGxmSetFragmentProgram p) = True"
| "is_program_bind _ = False"

fun is_texture_bind :: "gxm_call \<Rightarrow> bool" where
  "is_texture_bind (sceGxmSetFragmentTexture p) = True"
| "is_texture_bind _ = False"

definition bind_calls :: "gxm_call list \<Rightarrow> gxm_call list" where
  "bind_calls cs = filter (\<lambda>c. is_program_bind c \<or> is_texture_bind c) cs"

fun is_scissor_call :: "gxm_call \<Rightarrow> bool" where
  "is_scissor_call (set_clip_rectangle a b c d) = True"
| "is_scissor_call _ = False"

definition zero_rect :: SDL_Rect where
  "zero_rect = \<lparr>rect_x = 0, rect_y = 0, rect_w = 0, rect_h = 0\<rparr>"

definition example_progs :: blend_fragment_programs where
  "example_progs =
     \<lparr>blend_mode_none = \<lparr>fp_color = 11, fp_texture = 12\<rparr>,
      blend_mode_blend = \<lparr>fp_color = 21, fp_texture = 22\<rparr>,
      blend_mode_add = \<lparr>fp_color = 31, fp_texture = 32\<rparr>,
      blend_mode_mod = \<lparr>fp_color = 41, fp_texture = 42\<rparr>,
      blend_mode_mul = \<lparr>fp_color = 51, fp_texture = 52\<rparr>\<rparr>"

definition example_vita_texture :: VITA_GXM_TextureData where
  "example_vita_texture =
     \<lparr>tex = \<lparr>gxm_tex = 900, gxm_rendertarget = 901\<rparr>, vt_pitch = 1024,
      scale_mode = SDL_SCALEMODE_INVALID,
      address_mode_u = SDL_TEXTURE_ADDRESS_INVALID, address_mode_v = SDL_TEXTURE_ADDRESS_INVALID\<rparr>"

definition example_gxm :: VITA_GXM_RenderData where
  "example_gxm =
     \<lparr>drawing = True, currentBlendMode = SDL_BLENDMODE_BLEND, ortho_matrix = (960, 544),
      colorVertexProgram = 1, colorFragmentProgram = 21,
      textureVertexProgram = 2, textureFragmentProgram = 22,
      clearVertexProgram = 3, clearFragmentProgram = 4, clearVertices = 5,
      blendFragmentPrograms = example_progs,
      drawstate = \<lparr>viewport = \<lparr>rect_x = 0, rect_y = 0, rect_w = 960, rect_h = 544\<rparr>,
                   viewport_dirty = False, viewport_is_set = False,
                   ds_texture = 0, ds_target = 0, fragment_program = 0, vertex_program = 0,
                   last_command = None, cliprect_enabled_dirty = False,
                   ds_cliprect_enabled = False, cliprect_dirty = False, cliprect = zero_rect,
                   drawablew = 960, drawableh = 544\<rparr>,
      vita_textures = (\<lambda>p. example_vita_texture)\<rparr>"

definition draw_cmd :: "SDL_RenderCommandType \<Rightarrow> ptr \<Rightarrow> SDL_BlendMode \<Rightarrow> 32 word \<Rightarrow> SDL_RenderCommand" where
  "draw_cmd ty t b n =
     \<lparr>command = ty, viewport_rect = zero_rect, cliprect_enabled = False, cliprect_rect = zero_rect,
      draw_first = 4096, draw_count = n, draw_blend = b, draw_texture = t,
      draw_texture_scale_mode = SDL_SCALEMODE_NEAREST,
      draw_texture_address_mode_u = SDL_TEXTURE_ADDRESS_CLAMP,
      draw_texture_address_mode_v = SDL_TEXTURE_ADDRESS_CLAMP\<rparr>"

definition viewport_cmd :: "SDL_Rect \<Rightarrow> SDL_RenderCommand" where
  "viewport_cmd r = (draw_cmd SDL_RENDERCMD_SETVIEWPORT 0 SDL_BLENDMODE_NONE 0)\<lparr>viewport_rect := r\<rparr>"

definition cliprect_cmd :: "bool \<Rightarrow> SDL_Rect \<Rightarrow> SDL_RenderCommand" where
  "cliprect_cmd en r = (draw_cmd SDL_RENDERCMD_SETCLIPRECT 0 SDL_BLENDMODE_NONE 0)
                          \<lparr>cliprect_enabled := en, cliprect_rect := r\<rparr>"

definition no_start :: "VITA_GXM_RenderData \<Rightarrow> gxm_call list \<times> VITA_GXM_RenderData" where
  "no_start d = ([], d)"


text \<open>
  The fields of the renderer data that decide which programs and which texture
  \<^verbatim>\<open>SetDrawState\<close> binds, and the part of \<^verbatim>\<open>SetDrawState\<close> from
  \<^verbatim>\<open>VITA_GXM_SetBlendMode\<close> on.
\<close>

definition binds_view where
  "binds_view d = (currentBlendMode d, colorVertexProgram d, colorFragmentProgram d,
     textureVertexProgram d, textureFragmentProgram d, blendFragmentPrograms d,
     vertex_program (drawstate d), fragment_program (drawstate d), ds_texture (drawstate d))"

definition core_binds ::
  "VITA_GXM_RenderData \<Rightarrow> SDL_RenderCommand \<Rightarrow> bool \<Rightarrow> gxm_call list \<times> VITA_GXM_RenderData" where
  "core_binds d c m =
     (let (c5, d5) = SetDrawState_programs (VITA_GXM_SetBlendMode d (draw_blend c)) (draw_texture c) m;
          (c6, d6) = SetDrawState_sampler d5 c;
          (c7, d7) = SetDrawState_texture d6 (draw_texture c)
      in (c5 @ c6 @ c7, d7))"


subsection \<open>Example data of the PSP renderer\<close>

definition example_psp_target :: PSP_TextureData where
  "example_psp_target =
     \<lparr>data = 0x04100000, pixels = fresh_block 4096, size_bytes = 4096, width = 32, height = 32,
      textureWidth = 32, textureHeight = 32, bits = 32, format = GU_PSM_8888, pitch = 128,
      swizzled = False\<rparr>"

definition example_sdl_target :: SDL_Texture where
  "example_sdl_target =
     \<lparr>access = SDL_TEXTUREACCESS_TARGET, tex_w = 32, tex_h = 32,
      tex_format = SDL_PIXELFORMAT_ABGR8888, internal = 7\<rparr>"

subsection \<open>The LRU list as a list of addresses\<close>

text \<open>
  \<open>dseg pv nx p q xs r\<close>: with the fields \<^verbatim>\<open>prevhotw\<close> and \<^verbatim>\<open>nexthotw\<close> given by
  \<open>pv\<close> and \<open>nx\<close>, the nodes \<open>xs\<close> are linked in this order from the pointer \<open>q\<close>,
  the node before the first one is \<open>p\<close> and the \<^verbatim>\<open>nexthotw\<close> of the last one is
  \<open>r\<close>.  The LRU list of a renderer is the list from \<^verbatim>\<open>most_recent_target\<close> with
  \<open>p = r = 0\<close>, without repetition, whose last node is \<^verbatim>\<open>least_recent_target\<close>.
\<close>

fun dseg :: "(ptr \<Rightarrow> ptr) \<Rightarrow> (ptr \<Rightarrow> ptr) \<Rightarrow> ptr \<Rightarrow> ptr \<Rightarrow> ptr list \<Rightarrow> ptr \<Rightarrow> bool" where
  "dseg pv nx p q [] r = (q = r)"
| "dseg pv nx p q (x # xs) r = (q = x \<and> x \<noteq> 0 \<and> pv x = p \<and> dseg pv nx x (nx x) xs r)"

definition lru_inv :: "'m PSP_RenderData \<Rightarrow> ptr list \<Rightarrow> bool" where
  "lru_inv d xs =
     (dseg (prevhotw d) (nexthotw d) 0 (most_recent_target d) xs 0 \<and> distinct xs
      \<and> least_recent_target d = (if xs = [] then 0 else last xs))"

definition unlinked :: "'m PSP_RenderData \<Rightarrow> ptr \<Rightarrow> bool" where
  "unlinked d t = (prevhotw d t = 0 \<and> nexthotw d t = 0)"

subsection \<open>What is assumed of the allocators\<close>

text \<open>
  \<^verbatim>\<open>vramalloc\<close> returns null or an address of video memory, and it succeeds when the
  largest free block is large enough; \<^verbatim>\<open>SDL_malloc\<close> returns null or an address
  outside video memory; an allocation that fails leaves the allocator as it was.
\<close>

definition mem_contract :: "'m mem_ops \<Rightarrow> bool" where
  "mem_contract ops =
     (\<forall>m n. (n \<le> vlargestblock ops m \<longrightarrow> fst (vramalloc ops n m) \<noteq> 0)
          \<and> InVram (fst (vramalloc ops n m))
          \<and> (fst (vramalloc ops n m) = 0 \<longrightarrow> snd (vramalloc ops n m) = m)
          \<and> (fst (SDL_malloc ops n m) \<noteq> 0 \<longrightarrow> \<not> InVram (fst (SDL_malloc ops n m)))
          \<and> (fst (SDL_malloc ops n m) = 0 \<longrightarrow> snd (SDL_malloc ops n m) = m))"

subsection \<open>Runs of evictions and reachable states\<close>

text \<open>
  \<open>spill_run ops sz d d'\<close>: from \<open>d\<close> the state \<open>d'\<close> is reached by evictions of
  \<^verbatim>\<open>TextureSpillLRU\<close> that succeeded, each made while the largest free block of
  video memory was smaller than \<open>sz\<close>.
\<close>

inductive spill_run :: "'m mem_ops \<Rightarrow> nat \<Rightarrow> 'm PSP_RenderData \<Rightarrow> 'm PSP_RenderData \<Rightarrow> bool"
  for ops :: "'m mem_ops" and sz :: nat where
  spill_done: "spill_run ops sz d d"
| spill_step: "vlargestblock ops (mem d) < sz \<Longrightarrow> TextureSpillLRU ops sz d = Some (True, d1)
               \<Longrightarrow> spill_run ops sz d1 d' \<Longrightarrow> spill_run ops sz d d'"

text \<open>
  The states of a renderer and the textures alive in them: from a renderer whose list
  is empty, by creating textures (\<open>p\<close> being a fresh address), binding a texture of
  access target, sampling a texture, writing the pixels of a texture through a lock
  or an update, and destroying a texture.
\<close>

inductive reachable :: "'m mem_ops \<Rightarrow> 'm PSP_RenderData \<Rightarrow> SDL_Texture list \<Rightarrow> bool"
  for ops :: "'m mem_ops" where
  r_init: "most_recent_target d = 0 \<Longrightarrow> least_recent_target d = 0 \<Longrightarrow> reachable ops d []"
| r_create: "reachable ops d live \<Longrightarrow> p \<noteq> 0 \<Longrightarrow> p \<notin> internal ` set live
             \<Longrightarrow> PSP_CreateTexture ops d tx p = Some (True, d', tx')
             \<Longrightarrow> reachable ops d' (tx' # live)"
| r_create_failed: "reachable ops d live \<Longrightarrow> p \<notin> internal ` set live
             \<Longrightarrow> PSP_CreateTexture ops d tx p = Some (False, d', tx')
             \<Longrightarrow> reachable ops d' live"
| r_bind: "reachable ops d live \<Longrightarrow> tx \<in> set live \<Longrightarrow> access tx = SDL_TEXTUREACCESS_TARGET
             \<Longrightarrow> TextureBindAsTarget ops d (internal tx) = Some (ok, calls, d')
             \<Longrightarrow> reachable ops d' live"
| r_activate: "reachable ops d live \<Longrightarrow> tx \<in> set live
             \<Longrightarrow> TextureActivate ops d tx = Some (calls, d')
             \<Longrightarrow> reachable ops d' live"
| r_write: "reachable ops d live \<Longrightarrow> tx \<in> set live
             \<Longrightarrow> length px = length (pixels (textures d (internal tx)))
             \<Longrightarrow> reachable ops
                   (d\<lparr>textures := (textures d)
                        (internal tx := (textures d (internal tx))\<lparr>pixels := px\<rparr>)\<rparr>) live"
| r_destroy: "reachable ops d live \<Longrightarrow> tx \<in> set live
             \<Longrightarrow> PSP_DestroyTexture ops d tx = (d', tx')
             \<Longrightarrow> reachable ops d' (remove1 tx live)"

text \<open>
  The invariant of the reachable states, for the list \<open>xs\<close> of the nodes of the LRU
  list: the textures alive have distinct non-null objects; every node of the list is
  the object of a texture of access target; an object outside the list has null list
  pointers; a streaming texture is not swizzled.  \<open>resident_iff\<close>: the object of a
  texture alive is a node of the list exactly when the texture has access target and its
  block is in video memory.
\<close>

definition target_objects :: "SDL_Texture list \<Rightarrow> ptr set" where
  "target_objects live = internal ` {tx \<in> set live. access tx = SDL_TEXTUREACCESS_TARGET}"

definition lru_wf :: "'m PSP_RenderData \<Rightarrow> SDL_Texture list \<Rightarrow> ptr list \<Rightarrow> bool" where
  "lru_wf d live xs =
     (lru_inv d xs \<and> distinct (map internal live) \<and> 0 \<notin> internal ` set live
      \<and> set xs \<subseteq> target_objects live
      \<and> (\<forall>tx\<in>set live. internal tx \<notin> set xs \<longrightarrow> unlinked d (internal tx))
      \<and> (\<forall>tx\<in>set live. access tx = SDL_TEXTUREACCESS_STREAMING
            \<longrightarrow> \<not> swizzled (textures d (internal tx))))"

definition resident_iff :: "'m PSP_RenderData \<Rightarrow> SDL_Texture list \<Rightarrow> ptr list \<Rightarrow> bool" where
  "resident_iff d live xs =
     (\<forall>tx\<in>set live. (internal tx \<in> set xs) =
         (access tx = SDL_TEXTUREACCESS_TARGET \<and> InVram (data (textures d (internal tx)))))"

subsection \<open>The copies a layout transform makes\<close>

text \<open>
  Both transforms are sequences of the four-cell copy: \<open>run_copies\<close> makes the copies
  of a list in order, each given by the index it reads from and the index it stores to.
  \<open>blockaddress_at rb j\<close> is the value of \<^verbatim>\<open>blockaddress\<close> in \<^verbatim>\<open>TextureSwizzle\<close>
  when row \<open>j\<close> starts, for \<open>rb\<close> blocks in a row.
\<close>

fun run_copies :: "(nat \<times> int) list \<Rightarrow> 'a list \<Rightarrow> 'a list \<Rightarrow> 'a list option" where
  "run_copies [] src dst = Some dst"
| "run_copies ((s, b) # ops) src dst =
     (case copy4 src s dst b of None \<Rightarrow> None | Some dst' \<Rightarrow> run_copies ops src dst')"

definition blockaddress_at :: "int \<Rightarrow> int \<Rightarrow> int" where
  "blockaddress_at rb j = (j div 8) * (rb * 128) + (j mod 8) * 16"

definition swizzle_copies :: "nat \<Rightarrow> nat \<Rightarrow> (nat \<times> int) list" where
  "swizzle_copies rb h =
     concat (map (\<lambda>j. map (\<lambda>i. (j * (4 * rb) + 4 * i,
                                  blockaddress_at (int rb) (int j) div 4 + 32 * int i)) [0..<rb])
                 [0..<h])"

definition unswizzle_copies :: "nat \<Rightarrow> nat \<Rightarrow> (nat \<times> int) list" where
  "unswizzle_copies rb hb =
     concat (map (\<lambda>y. concat (map (\<lambda>x. map (\<lambda>r. (y * (32 * rb) + 32 * x + 4 * r,
                                   int ((8 * y + r) * (4 * rb) + 4 * x))) [0..<8]) [0..<rb]))
                 [0..<hb])"

text \<open>
  The two layouts of a texture whose rows are \<open>rb\<close> chunks of 16 bytes (four cells).
  \<open>linear_index rb j i k\<close> is the place of cell \<open>k\<close> of chunk \<open>i\<close> of row \<open>j\<close> in the
  linear layout, row after row.  \<open>swizzled_index rb j i k\<close> is its place in the
  swizzled layout of the GU: tiles of 16 bytes by 8 rows (32 cells), the tiles of a
  row of tiles one after the other, and inside a tile its 8 chunks one after the other.
\<close>

definition linear_index :: "nat \<Rightarrow> nat \<Rightarrow> nat \<Rightarrow> nat \<Rightarrow> nat" where
  "linear_index rb j i k = j * (4 * rb) + 4 * i + k"

definition swizzled_index :: "nat \<Rightarrow> nat \<Rightarrow> nat \<Rightarrow> nat \<Rightarrow> nat" where
  "swizzled_index rb j i k = (j div 8) * (32 * rb) + 4 * (j mod 8) + 32 * i + k"

subsection \<open>An allocator and renderer states for the examples\<close>

text \<open>
  A small instance of the allocator parameter: video memory is a budget of bytes, the
  blocks handed out are remembered with their sizes, and the C heap is a budget of
  bytes that is never given back.  Addresses of video memory start at \<open>0x04000000\<close>,
  those of the C heap at \<open>0x08800000\<close>; the offsets wrap around inside the two
  address ranges.
\<close>

record toy_mem =
  vram_free :: nat
  vram_next :: int
  vram_blocks :: "(ptr \<times> nat) list"
  sram_free :: nat
  sram_next :: int

definition toy_vramalloc :: "nat \<Rightarrow> toy_mem \<Rightarrow> ptr \<times> toy_mem" where
  "toy_vramalloc n m =
     (if n \<le> vram_free m
      then (let a = 0x04000000 + vram_next m mod 0x200000
            in (a, m\<lparr>vram_free := vram_free m - n, vram_next := vram_next m + int n,
                     vram_blocks := (a, n) # vram_blocks m\<rparr>))
      else (0, m))"

definition toy_vfree :: "ptr \<Rightarrow> toy_mem \<Rightarrow> toy_mem" where
  "toy_vfree a m =
     (case map_of (vram_blocks m) a of
        None \<Rightarrow> m
      | Some n \<Rightarrow> m\<lparr>vram_free := vram_free m + n,
                     vram_blocks := filter (\<lambda>b. fst b \<noteq> a) (vram_blocks m)\<rparr>)"

definition toy_malloc :: "nat \<Rightarrow> toy_mem \<Rightarrow> ptr \<times> toy_mem" where
  "toy_malloc n m =
     (if n \<le> sram_free m
      then (0x08800000 + sram_next m mod 0x1000000,
            m\<lparr>sram_free := sram_free m - n, sram_next := sram_next m + int n\<rparr>)
      else (0, m))"

definition toy_ops :: "toy_mem mem_ops" where
  "toy_ops = \<lparr>vlargestblock = vram_free, vramalloc = toy_vramalloc, vfree = toy_vfree,
              SDL_malloc = toy_malloc, SDL_free = (\<lambda>a m. m)\<rparr>"

definition toy_mem_init :: "nat \<Rightarrow> nat \<Rightarrow> toy_mem" where
  "toy_mem_init v s = \<lparr>vram_free = v, vram_next = 0, vram_blocks = [], sram_free = s, sram_next = 0\<rparr>"

text \<open>A renderer without textures, and a target of 8 by 8 pixels of 32 bits (256 bytes).\<close>

definition no_texture :: PSP_TextureData where
  "no_texture = \<lparr>data = 0, pixels = [], size_bytes = 0, width = 0, height = 0,
      textureWidth = 0, textureHeight = 0, bits = 0, format = GU_PSM_8888, pitch = 0,
      swizzled = False\<rparr>"

definition psp_init :: "toy_mem \<Rightarrow> toy_mem PSP_RenderData" where
  "psp_init m = \<lparr>boundTarget = 0, most_recent_target = 0, least_recent_target = 0,
      textures = (\<lambda>p. no_texture), prevhotw = (\<lambda>p. 0), nexthotw = (\<lambda>p. 0), mem = m\<rparr>"

definition small_target :: SDL_Texture where
  "small_target = \<lparr>access = SDL_TEXTUREACCESS_TARGET, tex_w = 8, tex_h = 8,
      tex_format = SDL_PIXELFORMAT_ABGR8888, internal = 0\<rparr>"

text \<open>
  The renderer after two targets were created, at the addresses 16 and 32, from a
  renderer without textures on the allocator state \<open>m\<close>; and what binding the first
  of them returns then.
\<close>

definition created :: "toy_mem PSP_RenderData \<Rightarrow> SDL_Texture \<Rightarrow> ptr \<Rightarrow> toy_mem PSP_RenderData" where
  "created d tx p = fst (snd (the (PSP_CreateTexture toy_ops d tx p)))"

definition two_targets :: "toy_mem \<Rightarrow> toy_mem PSP_RenderData" where
  "two_targets m = created (created (psp_init m) small_target 16) small_target 32"

definition first_target :: SDL_Texture where
  "first_target = small_target\<lparr>internal := 16\<rparr>"

definition second_target :: SDL_Texture where
  "second_target = small_target\<lparr>internal := 32\<rparr>"

definition bound :: "toy_mem PSP_RenderData \<Rightarrow> ptr \<Rightarrow> bool \<times> psp_call list \<times> toy_mem PSP_RenderData" where
  "bound d p = the (TextureBindAsTarget toy_ops d p)"

text \<open>
  A renderer with one streaming texture of 16 by 2 pixels; a target in video memory whose
  cells are numbered; and what spilling and promoting return on the example allocator.
\<close>

definition small_streaming :: SDL_Texture where
  "small_streaming = \<lparr>access = SDL_TEXTUREACCESS_STREAMING, tex_w = 16, tex_h = 2,
      tex_format = SDL_PIXELFORMAT_ABGR8888, internal = 0\<rparr>"

definition one_streaming :: "toy_mem \<Rightarrow> toy_mem PSP_RenderData" where
  "one_streaming m = created (psp_init m) small_streaming 16"

definition numbered_target :: PSP_TextureData where
  "numbered_target =
     (new_texture_data small_target)
       \<lparr>data := 0x04000000, pixels := map (\<lambda>i. Some (of_nat i)) [0..<64]\<rparr>"

definition spilled :: "PSP_TextureData \<Rightarrow> toy_mem \<Rightarrow> bool \<times> PSP_TextureData \<times> toy_mem" where
  "spilled t m = the (TextureSpillToSram toy_ops t m)"

definition promoted :: "PSP_TextureData \<Rightarrow> toy_mem \<Rightarrow> bool \<times> PSP_TextureData \<times> toy_mem" where
  "promoted t m = the (TexturePromoteToVram toy_ops t True m)"


definition spill_lru :: "nat \<Rightarrow> toy_mem PSP_RenderData \<Rightarrow> bool \<times> toy_mem PSP_RenderData" where
  "spill_lru sz d = the (TextureSpillLRU toy_ops sz d)"



text \<open>
  Textures smaller than a tile of 16 bytes by 8 rows: a target of 4 by 4 pixels (rows
  of 16 bytes) whose cells are numbered, and a static texture of 16 by 2 pixels (rows
  of 64 bytes), created at the address 16.
\<close>

definition tiny_target :: SDL_Texture where
  "tiny_target = \<lparr>access = SDL_TEXTUREACCESS_TARGET, tex_w = 4, tex_h = 4,
      tex_format = SDL_PIXELFORMAT_ABGR8888, internal = 0\<rparr>"

definition numbered_tiny_target :: PSP_TextureData where
  "numbered_tiny_target =
     (new_texture_data tiny_target)
       \<lparr>data := 0x04000000, pixels := map (\<lambda>i. Some (of_nat i)) [0..<16]\<rparr>"

definition flat_static :: SDL_Texture where
  "flat_static = \<lparr>access = SDL_TEXTUREACCESS_STATIC, tex_w = 16, tex_h = 2,
      tex_format = SDL_PIXELFORMAT_ABGR8888, internal = 0\<rparr>"

definition one_static :: "toy_mem \<Rightarrow> toy_mem PSP_RenderData" where
  "one_static m = created (psp_init m) flat_static 16"

section \<open>The command translator: batching, draw state, clip rectangle, lock\<close>

subsection \<open>Draw calls of a translated queue\<close>

lemma draw_calls_append [simp]: "draw_calls (a @ b) = draw_calls a @ draw_calls b"
  by (simp add: draw_calls_def)

lemma no_draw_viewport: "draw_calls (fst (SetDrawState_viewport d)) = []"
  by (simp add: SetDrawState_viewport_def draw_calls_def Let_def)

lemma no_draw_cliprect_enabled: "draw_calls (fst (SetDrawState_cliprect_enabled d)) = []"
  by (simp add: SetDrawState_cliprect_enabled_def draw_calls_def)

lemma no_draw_cliprect: "draw_calls (fst (SetDrawState_cliprect d)) = []"
  by (simp add: SetDrawState_cliprect_def draw_calls_def Let_def)

lemma no_draw_programs: "draw_calls (fst (SetDrawState_programs d t m)) = []"
  by (simp add: SetDrawState_programs_def draw_calls_def Let_def)

lemma no_draw_sampler: "draw_calls (fst (SetDrawState_sampler d c)) = []"
  by (simp add: SetDrawState_sampler_def draw_calls_def Let_def split: SDL_ScaleMode.split)

lemma no_draw_texture: "draw_calls (fst (SetDrawState_texture d t)) = []"
  by (simp add: SetDrawState_texture_def draw_calls_def)

lemma SetDrawState_no_draw: "draw_calls (fst (snd (SetDrawState d c))) = []"
proof -
  obtain c1 m d1 where 1: "SetDrawState_viewport d = (c1, m, d1)" by (metis prod_cases3)
  obtain c2 d2 where 2: "SetDrawState_cliprect_enabled d1 = (c2, d2)" by (metis surj_pair)
  obtain c3 d3 where 3: "SetDrawState_cliprect d2 = (c3, d3)" by (metis surj_pair)
  obtain c5 d5 where 5: "SetDrawState_programs (VITA_GXM_SetBlendMode d3 (draw_blend c)) (draw_texture c) m = (c5, d5)"
    by (metis surj_pair)
  obtain c6 d6 where 6: "SetDrawState_sampler d5 c = (c6, d6)" by (metis surj_pair)
  obtain c7 d7 where 7: "SetDrawState_texture d6 (draw_texture c) = (c7, d7)" by (metis surj_pair)
  have "draw_calls c1 = []" using no_draw_viewport[of d] 1 by simp
  moreover have "draw_calls c2 = []" using no_draw_cliprect_enabled[of d1] 2 by simp
  moreover have "draw_calls c3 = []" using no_draw_cliprect[of d2] 3 by simp
  moreover have "draw_calls c5 = []" using no_draw_programs[of _ "draw_texture c" m] 5 by (metis fst_conv)
  moreover have "draw_calls c6 = []" using no_draw_sampler[of d5 c] 6 by simp
  moreover have "draw_calls c7 = []" using no_draw_texture[of d6 "draw_texture c"] 7 by simp
  moreover have "draw_calls [sceGxmSetVertexStream (draw_first c)] = []" by (simp add: draw_calls_def)
  ultimately show ?thesis
    by (simp add: SetDrawState_def Let_def 1 2 3 5 6 7)
qed



lemma SetDrawState_ret: "fst (SetDrawState d c) = True"
  by (simp add: SetDrawState_def Let_def split_beta)

lemma draw_batch_draws:
  "draw_calls (fst (draw_batch d c n)) = [sceGxmDraw (primitive_of (command c)) n]"
proof -
  obtain r cs d1 where sd: "SetDrawState d c = (r, cs, d1)" by (metis prod_cases3)
  have r: "r = True" using SetDrawState_ret[of d c] sd by simp
  have cs: "draw_calls cs = []" using SetDrawState_no_draw[of d c] sd by simp
  show ?thesis
    by (simp add: draw_batch_def sd r cs primitive_of_def) (simp add: draw_calls_def)
qed


lemma merge_draws_length:
  "length (snd (merge_draws ty t b c q)) \<le> length q"
  by (induction q arbitrary: c) (auto intro: le_SucI)

lemma merge_draws_all:
  "\<forall>c\<in>set run. command c = ty \<and> draw_texture c = t \<and> draw_blend c = b \<Longrightarrow>
   post = [] \<or> command (hd post) \<noteq> ty \<or> draw_texture (hd post) \<noteq> t \<or> draw_blend (hd post) \<noteq> b \<Longrightarrow>
   merge_draws ty t b n (run @ post) = (n + sum_list (map draw_count run), post)"
proof (induction run arbitrary: n)
  case Nil
  show ?case
  proof (cases post)
    case Nil
    then show ?thesis by simp
  next
    case (Cons p ps)
    with Nil.prems(2) show ?thesis by simp
  qed
next
  case (Cons a run)
  have "merge_draws ty t b n ((a # run) @ post) = merge_draws ty t b (n + draw_count a) (run @ post)"
    using Cons.prems(1) by simp
  also have "\<dots> = (n + draw_count a + sum_list (map draw_count run), post)"
    using Cons.prems by (intro Cons.IH) simp_all
  finally show ?case by (simp add: add.assoc)
qed


lemma merge_draws_split:
  "merge_draws ty t b n rest = (n', rest1) \<Longrightarrow> rest1 \<noteq> [] \<Longrightarrow>
   merge_draws ty t b n (rest @ q) = (n', rest1 @ q)"
proof (induction rest arbitrary: n)
  case Nil
  then show ?case by simp
next
  case (Cons a rest)
  show ?case
  proof (cases "command a \<noteq> ty \<or> draw_texture a \<noteq> t \<or> draw_blend a \<noteq> b")
    case True
    then show ?thesis using Cons.prems by (auto split: if_splits)
  next
    case False
    then show ?thesis using Cons.prems Cons.IH[of "n + draw_count a"] by simp
  qed
qed

lemma merge_draws_last:
  "merge_draws ty t b n rest = (n', rest1) \<Longrightarrow> rest1 \<noteq> [] \<Longrightarrow>
   rest \<noteq> [] \<and> last rest1 = last rest"
proof (induction rest arbitrary: n)
  case Nil
  then show ?case by simp
next
  case (Cons a rest)
  show ?case
  proof (cases "command a \<noteq> ty \<or> draw_texture a \<noteq> t \<or> draw_blend a \<noteq> b")
    case True
    then show ?thesis using Cons.prems by (auto split: if_splits)
  next
    case False
    then have "merge_draws ty t b (n + draw_count a) rest = (n', rest1)"
      using Cons.prems by simp
    from Cons.IH[OF this Cons.prems(2)] show ?thesis by simp
  qed
qed

lemma merge_draws_exhaust:
  "merge_draws ty t b n rest = (n', []) \<Longrightarrow>
   (\<forall>c\<in>set rest. command c = ty \<and> draw_texture c = t \<and> draw_blend c = b)"
proof (induction rest arbitrary: n)
  case Nil
  then show ?case by simp
next
  case (Cons a rest)
  show ?case
  proof (cases "command a \<noteq> ty \<or> draw_texture a \<noteq> t \<or> draw_blend a \<noteq> b")
    case True
    then show ?thesis using Cons.prems by (auto split: if_splits)
  next
    case False
    then have "merge_draws ty t b (n + draw_count a) rest = (n', [])"
      using Cons.prems by simp
    from Cons.IH[OF this] False show ?thesis by simp
  qed
qed


lemma run_commands_draw:
  "is_draw_cmd (command cmd) \<Longrightarrow>
   merge_draws (command cmd) (draw_texture cmd) (draw_blend cmd) (draw_count cmd) rest = (count, rest1) \<Longrightarrow>
   draw_batch d cmd count = (calls, d1) \<Longrightarrow>
   run_commands d (cmd # rest) =
     (calls @ fst (run_commands (d1\<lparr>drawstate := (drawstate d1)\<lparr>last_command := Some (command cmd)\<rparr>\<rparr>) rest1),
      snd (run_commands (d1\<lparr>drawstate := (drawstate d1)\<lparr>last_command := Some (command cmd)\<rparr>\<rparr>) rest1))"
  by (simp add: Let_def split_beta)


lemma run_commands_other:
  "\<not> is_draw_cmd (command cmd) \<Longrightarrow> state_cmd d cmd = (calls, d1) \<Longrightarrow>
   run_commands d (cmd # rest) =
     (calls @ fst (run_commands (d1\<lparr>drawstate := (drawstate d1)\<lparr>last_command := Some (command cmd)\<rparr>\<rparr>) rest),
      snd (run_commands (d1\<lparr>drawstate := (drawstate d1)\<lparr>last_command := Some (command cmd)\<rparr>\<rparr>) rest))"
  by (simp add: Let_def split_beta)

lemma run_commands_append:
  "pre \<noteq> [] \<Longrightarrow> q = [] \<or> \<not> joins (last pre) (hd q) \<Longrightarrow>
   run_commands d (pre @ q) =
     (fst (run_commands d pre) @ fst (run_commands (snd (run_commands d pre)) q),
      snd (run_commands (snd (run_commands d pre)) q))"
proof (induction "length pre" arbitrary: pre d rule: less_induct)
  case less
  from less.prems(1) obtain cmd rest where pre: "pre = cmd # rest" by (cases pre) auto
  show ?case
  proof (cases "is_draw_cmd (command cmd)")
    case True
    obtain count rest1 where m: "merge_draws (command cmd) (draw_texture cmd) (draw_blend cmd) (draw_count cmd) rest = (count, rest1)"
      by (metis surj_pair)
    obtain calls d1 where b: "draw_batch d cmd count = (calls, d1)" by (metis surj_pair)
    let ?d2 = "d1\<lparr>drawstate := (drawstate d1)\<lparr>last_command := Some (command cmd)\<rparr>\<rparr>"
    have L: "run_commands d pre = (calls @ fst (run_commands ?d2 rest1), snd (run_commands ?d2 rest1))"
      unfolding pre by (rule run_commands_draw[OF True m b])
    show ?thesis
    proof (cases "rest1 = []")
      case False
      have m': "merge_draws (command cmd) (draw_texture cmd) (draw_blend cmd) (draw_count cmd) (rest @ q) = (count, rest1 @ q)"
        by (rule merge_draws_split[OF m False])
      have R: "run_commands d (pre @ q) = (calls @ fst (run_commands ?d2 (rest1 @ q)), snd (run_commands ?d2 (rest1 @ q)))"
        unfolding pre append_Cons by (rule run_commands_draw[OF True m' b])
      have len: "length rest1 < length pre"
        using merge_draws_length[of "command cmd" "draw_texture cmd" "draw_blend cmd" "draw_count cmd" rest] m pre
        by simp
      have lst: "last rest1 = last pre" using merge_draws_last[OF m False] pre by simp
      have IH: "run_commands ?d2 (rest1 @ q) =
         (fst (run_commands ?d2 rest1) @ fst (run_commands (snd (run_commands ?d2 rest1)) q),
          snd (run_commands (snd (run_commands ?d2 rest1)) q))"
        using less.hyps[OF len False, of ?d2] less.prems(2) lst by simp
      show ?thesis unfolding R L IH by simp
    next
      case Nil: True
      have all: "\<forall>c\<in>set rest. command c = command cmd \<and> draw_texture c = draw_texture cmd \<and> draw_blend c = draw_blend cmd"
        using merge_draws_exhaust[of _ _ _ _ rest count] m Nil by simp
      have lastpre: "command (last pre) = command cmd \<and> draw_texture (last pre) = draw_texture cmd \<and> draw_blend (last pre) = draw_blend cmd"
        using all pre by (cases "rest = []") auto
      have q: "q = [] \<or> command (hd q) \<noteq> command cmd \<or> draw_texture (hd q) \<noteq> draw_texture cmd \<or> draw_blend (hd q) \<noteq> draw_blend cmd"
        using less.prems(2) lastpre True by (auto simp: joins_def)
      have cnt: "count = draw_count cmd + sum_list (map draw_count rest)"
        using merge_draws_all[OF all, of "[]" "draw_count cmd"] m by simp
      have m': "merge_draws (command cmd) (draw_texture cmd) (draw_blend cmd) (draw_count cmd) (rest @ q) = (count, q)"
        using merge_draws_all[OF all q, of "draw_count cmd"] cnt by simp
      have R: "run_commands d (pre @ q) = (calls @ fst (run_commands ?d2 q), snd (run_commands ?d2 q))"
        unfolding pre append_Cons by (rule run_commands_draw[OF True m' b])
      show ?thesis unfolding R L Nil by simp
    qed
  next
    case False
    obtain calls d1 where b: "state_cmd d cmd = (calls, d1)" by (metis surj_pair)
    let ?d2 = "d1\<lparr>drawstate := (drawstate d1)\<lparr>last_command := Some (command cmd)\<rparr>\<rparr>"
    have L: "run_commands d pre = (calls @ fst (run_commands ?d2 rest), snd (run_commands ?d2 rest))"
      unfolding pre by (rule run_commands_other[OF False b])
    have R: "run_commands d (pre @ q) = (calls @ fst (run_commands ?d2 (rest @ q)), snd (run_commands ?d2 (rest @ q)))"
      unfolding pre append_Cons by (rule run_commands_other[OF False b])
    show ?thesis
    proof (cases "rest = []")
      case True
      show ?thesis unfolding R L True by simp
    next
      case rne: False
      have IH: "run_commands ?d2 (rest @ q) =
         (fst (run_commands ?d2 rest) @ fst (run_commands (snd (run_commands ?d2 rest)) q),
          snd (run_commands (snd (run_commands ?d2 rest)) q))"
        using less.hyps[OF _ rne, of ?d2] less.prems(2) pre rne by simp
      show ?thesis unfolding R L IH by simp
    qed
  qed
qed


lemma run_commands_run:
  assumes ne: "run \<noteq> []"
    and ty: "is_draw_cmd ty"
    and all: "\<forall>c\<in>set run. command c = ty \<and> draw_texture c = t \<and> draw_blend c = b"
  shows "draw_calls (fst (run_commands d run)) = [sceGxmDraw (primitive_of ty) (sum_list (map draw_count run))]"
proof -
  from ne obtain cmd rest where run: "run = cmd # rest" by (cases run) auto
  have c: "command cmd = ty" "draw_texture cmd = t" "draw_blend cmd = b" using all run by auto
  have rest: "\<forall>c\<in>set rest. command c = ty \<and> draw_texture c = t \<and> draw_blend c = b"
    using all run by auto
  have m: "merge_draws (command cmd) (draw_texture cmd) (draw_blend cmd) (draw_count cmd) rest
             = (draw_count cmd + sum_list (map draw_count rest), [])"
    using merge_draws_all[OF rest, of "[]" "draw_count cmd"] c by simp
  obtain calls d1 where b: "draw_batch d cmd (draw_count cmd + sum_list (map draw_count rest)) = (calls, d1)"
    by (metis surj_pair)
  have dc: "draw_calls calls = [sceGxmDraw (primitive_of ty) (draw_count cmd + sum_list (map draw_count rest))]"
    using draw_batch_draws[of d cmd "draw_count cmd + sum_list (map draw_count rest)"] b c by simp
  have "is_draw_cmd (command cmd)" using ty c by simp
  from run_commands_draw[OF this m b] dc show ?thesis
    unfolding run by (simp add: draw_calls_def)
qed

text \<open>
  Claim C2 (batching), as the code has it.  Let a queue be \<open>pre @ run @ post\<close> where
  \<open>run\<close> is a maximal run of \<open>k \<ge> 1\<close> draw commands of one type with one texture and
  one blend mode (the command before it and the command after it, if any, do not join
  it).  Then \<^verbatim>\<open>VITA_GXM_RunCommandQueue\<close> issues for the run exactly one
  \<^verbatim>\<open>sceGxmDraw\<close>, of the primitive of the command type, whose count is the sum of the
  counts of the run in \<^verbatim>\<open>size_t\<close> arithmetic: the draw calls of the whole queue are
  those of \<open>pre\<close>, this one call, and those of \<open>post\<close>.  The call is issued also when
  the sum is 0; the translator has no test of the count.
\<close>

theorem batching_one_draw_call:
  assumes ne: "run \<noteq> []"
    and ty: "is_draw_cmd ty"
    and all: "\<forall>c\<in>set run. command c = ty \<and> draw_texture c = t \<and> draw_blend c = b"
    and pre: "pre = [] \<or> \<not> joins (last pre) (hd run)"
    and post: "post = [] \<or> \<not> joins (last run) (hd post)"
    and d1: "d1 = snd (RunCommandQueue_entry start target w h d)"
    and d2: "d2 = snd (run_commands (snd (run_commands d1 pre)) run)"
  shows "draw_calls (fst (snd (VITA_GXM_RunCommandQueue start target w h d (pre @ run @ post)))) =
      draw_calls (fst (start d)) @ draw_calls (fst (run_commands d1 pre))
      @ [sceGxmDraw (primitive_of ty) (sum_list (map draw_count run))]
      @ draw_calls (fst (run_commands d2 post))"
proof -
  have e: "RunCommandQueue_entry start target w h d = (fst (start d), d1)"
    unfolding d1 by (simp add: RunCommandQueue_entry_def Let_def split_beta)
  define da where "da = snd (run_commands d1 pre)"
  have db: "d2 = snd (run_commands da run)" using d2 by (simp add: da_def)
  have A: "run_commands da (run @ post) =
        (fst (run_commands da run) @ fst (run_commands d2 post), snd (run_commands d2 post))"
    unfolding db by (rule run_commands_append[OF ne post])
  have B: "run_commands d1 (pre @ run @ post) =
        (fst (run_commands d1 pre) @ fst (run_commands da (run @ post)), snd (run_commands da (run @ post)))"
  proof (cases "pre = []")
    case True
    then show ?thesis by (simp add: da_def)
  next
    case False
    have "run @ post = [] \<or> \<not> joins (last pre) (hd (run @ post))"
      using pre False ne by simp
    from run_commands_append[OF False this] show ?thesis by (simp add: da_def)
  qed
  have R: "draw_calls (fst (run_commands da run)) = [sceGxmDraw (primitive_of ty) (sum_list (map draw_count run))]"
    by (rule run_commands_run[OF ne ty all])
  have Q: "fst (snd (VITA_GXM_RunCommandQueue start target w h d (pre @ run @ post))) =
      fst (start d) @ fst (run_commands d1 (pre @ run @ post)) @ [sceGxmEndScene]"
    by (simp add: VITA_GXM_RunCommandQueue_def e split_beta)
  have E: "draw_calls [sceGxmEndScene] = []" by (simp add: draw_calls_def)
  show ?thesis unfolding Q by (simp add: B A R E)
qed

text \<open>
  The scenario of the claim: a 2-point and a 3-point line list with one blend mode are
  queued as 2 and 4 vertices and drawn by one \<^verbatim>\<open>sceGxmDraw\<close> of 6 line vertices.
\<close>

theorem batching_one_draw_call_witness:
  "VITA_GXM_QueueDrawLines (draw_cmd SDL_RENDERCMD_DRAW_LINES 0 SDL_BLENDMODE_BLEND 0) 4096 2
     = Some (draw_cmd SDL_RENDERCMD_DRAW_LINES 0 SDL_BLENDMODE_BLEND 2) \<and>
   VITA_GXM_QueueDrawLines (draw_cmd SDL_RENDERCMD_DRAW_LINES 0 SDL_BLENDMODE_BLEND 0) 4096 3
     = Some (draw_cmd SDL_RENDERCMD_DRAW_LINES 0 SDL_BLENDMODE_BLEND 4) \<and>
   draw_calls (fst (snd (VITA_GXM_RunCommandQueue no_start 0 960 544 example_gxm
      [draw_cmd SDL_RENDERCMD_DRAW_LINES 0 SDL_BLENDMODE_BLEND 2,
       draw_cmd SDL_RENDERCMD_DRAW_LINES 0 SDL_BLENDMODE_BLEND 4])))
     = [sceGxmDraw SCE_GXM_PRIMITIVE_LINES 6]"
proof -
  let ?run = "[draw_cmd SDL_RENDERCMD_DRAW_LINES 0 SDL_BLENDMODE_BLEND 2,
               draw_cmd SDL_RENDERCMD_DRAW_LINES 0 SDL_BLENDMODE_BLEND 4]"
  have 1: "?run \<noteq> []" by simp
  have 2: "is_draw_cmd SDL_RENDERCMD_DRAW_LINES" by (simp add: is_draw_cmd_def)
  have 3: "\<forall>c\<in>set ?run. command c = SDL_RENDERCMD_DRAW_LINES \<and> draw_texture c = 0
             \<and> draw_blend c = SDL_BLENDMODE_BLEND"
    by (simp add: draw_cmd_def)
  have 4: "([]::SDL_RenderCommand list) = [] \<or> \<not> joins (last []) (hd ?run)" by simp
  have 5: "([]::SDL_RenderCommand list) = [] \<or> \<not> joins (last ?run) (hd [])" by simp
  have q: "VITA_GXM_QueueDrawLines (draw_cmd SDL_RENDERCMD_DRAW_LINES 0 SDL_BLENDMODE_BLEND 0) 4096 2
     = Some (draw_cmd SDL_RENDERCMD_DRAW_LINES 0 SDL_BLENDMODE_BLEND 2)"
    "VITA_GXM_QueueDrawLines (draw_cmd SDL_RENDERCMD_DRAW_LINES 0 SDL_BLENDMODE_BLEND 0) 4096 3
     = Some (draw_cmd SDL_RENDERCMD_DRAW_LINES 0 SDL_BLENDMODE_BLEND 4)"
    by (simp_all add: VITA_GXM_QueueDrawLines_def draw_cmd_def)
  from batching_one_draw_call[OF 1 2 3 4 5 refl refl, of no_start 0 960 544 example_gxm] q
  show ?thesis
    by (simp add: no_start_def primitive_of_def draw_cmd_def draw_calls_def)
qed

text \<open>
  The claim as stated fails on a command whose count is 0: a geometry command of no
  vertices is translated into one \<^verbatim>\<open>sceGxmDraw\<close> (of count 0), not into none.
\<close>

theorem zero_count_is_drawn:
  "draw_calls (fst (snd (VITA_GXM_RunCommandQueue no_start 0 960 544 example_gxm
      [draw_cmd SDL_RENDERCMD_GEOMETRY 0 SDL_BLENDMODE_BLEND 0])))
     = [sceGxmDraw SCE_GXM_PRIMITIVE_TRIANGLES 0]"
  by code_simp

subsection \<open>Program and texture binds of consecutive draw states\<close>

lemma view_viewport:
  "bind_calls (fst (SetDrawState_viewport d)) = [] \<and>
   binds_view (snd (snd (SetDrawState_viewport d))) = binds_view d"
  by (simp add: SetDrawState_viewport_def bind_calls_def binds_view_def Let_def)

lemma view_cliprect_enabled:
  "bind_calls (fst (SetDrawState_cliprect_enabled d)) = [] \<and>
   binds_view (snd (SetDrawState_cliprect_enabled d)) = binds_view d"
  by (simp add: SetDrawState_cliprect_enabled_def bind_calls_def binds_view_def)

lemma view_cliprect:
  "bind_calls (fst (SetDrawState_cliprect d)) = [] \<and>
   binds_view (snd (SetDrawState_cliprect d)) = binds_view d"
  by (simp add: SetDrawState_cliprect_def bind_calls_def binds_view_def Let_def)

lemma view_sampler:
  "bind_calls (fst (SetDrawState_sampler d c)) = [] \<and>
   binds_view (snd (SetDrawState_sampler d c)) = binds_view d"
  by (simp add: SetDrawState_sampler_def bind_calls_def binds_view_def Let_def split: SDL_ScaleMode.split)

lemma bind_calls_append [simp]: "bind_calls (a @ b) = bind_calls a @ bind_calls b"
  by (simp add: bind_calls_def)

lemma SetDrawState_core:
  "\<exists>d3 m. binds_view d3 = binds_view d \<and>
     bind_calls (fst (snd (SetDrawState d c))) = bind_calls (fst (core_binds d3 c m)) \<and>
     snd (snd (SetDrawState d c)) = snd (core_binds d3 c m)"
proof -
  obtain c1 m d1 where 1: "SetDrawState_viewport d = (c1, m, d1)" by (metis prod_cases3)
  obtain c2 d2 where 2: "SetDrawState_cliprect_enabled d1 = (c2, d2)" by (metis surj_pair)
  obtain c3 d3 where 3: "SetDrawState_cliprect d2 = (c3, d3)" by (metis surj_pair)
  have v: "binds_view d3 = binds_view d"
    using view_viewport[of d] view_cliprect_enabled[of d1] view_cliprect[of d2] 1 2 3 by simp
  have b: "bind_calls c1 = []" "bind_calls c2 = []" "bind_calls c3 = []"
    using view_viewport[of d] view_cliprect_enabled[of d1] view_cliprect[of d2] 1 2 3 by simp_all
  have s: "bind_calls [sceGxmSetVertexStream (draw_first c)] = []" by (simp add: bind_calls_def)
  have "bind_calls (fst (snd (SetDrawState d c))) = bind_calls (fst (core_binds d3 c m)) \<and>
     snd (snd (SetDrawState d c)) = snd (core_binds d3 c m)"
    by (simp add: SetDrawState_def core_binds_def 1 2 3 Let_def split_beta b s)
  with v show ?thesis by blast
qed

lemma core_binds_calls:
  "bind_calls (fst (core_binds d c m)) =
     (let d4 = VITA_GXM_SetBlendMode d (draw_blend c);
          vp = (if draw_texture c \<noteq> 0 then textureVertexProgram d4 else colorVertexProgram d4);
          fp = (if draw_texture c \<noteq> 0 then textureFragmentProgram d4 else colorFragmentProgram d4)
      in (if vertex_program (drawstate d4) \<noteq> vp then [sceGxmSetVertexProgram vp] else [])
         @ (if fragment_program (drawstate d4) \<noteq> fp then [sceGxmSetFragmentProgram fp] else [])
         @ (if draw_texture c \<noteq> ds_texture (drawstate d4) \<and> draw_texture c \<noteq> 0
            then [sceGxmSetFragmentTexture (draw_texture c)] else []))"
proof -
  define d4 where "d4 = VITA_GXM_SetBlendMode d (draw_blend c)"
  obtain c5 d5 where 5: "SetDrawState_programs d4 (draw_texture c) m = (c5, d5)" by (metis surj_pair)
  obtain c6 d6 where 6: "SetDrawState_sampler d5 c = (c6, d6)" by (metis surj_pair)
  obtain c7 d7 where 7: "SetDrawState_texture d6 (draw_texture c) = (c7, d7)" by (metis surj_pair)
  have b6: "bind_calls c6 = []" and v6: "binds_view d6 = binds_view d5"
    using view_sampler[of d5 c] 6 by simp_all
  have t5: "ds_texture (drawstate d5) = ds_texture (drawstate d4)"
    using 5 by (auto simp: SetDrawState_programs_def Let_def)
  have t6: "ds_texture (drawstate d6) = ds_texture (drawstate d4)"
    using v6 t5 by (simp add: binds_view_def)
  have b7: "bind_calls c7 = (if draw_texture c \<noteq> ds_texture (drawstate d4) \<and> draw_texture c \<noteq> 0
            then [sceGxmSetFragmentTexture (draw_texture c)] else [])"
    using 7 t6 by (auto simp: SetDrawState_texture_def bind_calls_def split: if_splits)
  have b5: "bind_calls c5 =
     (let vp = (if draw_texture c \<noteq> 0 then textureVertexProgram d4 else colorVertexProgram d4);
          fp = (if draw_texture c \<noteq> 0 then textureFragmentProgram d4 else colorFragmentProgram d4)
      in (if vertex_program (drawstate d4) \<noteq> vp then [sceGxmSetVertexProgram vp] else [])
         @ (if fragment_program (drawstate d4) \<noteq> fp then [sceGxmSetFragmentProgram fp] else []))"
    using 5 by (auto simp: SetDrawState_programs_def Let_def bind_calls_def)
  have "fst (core_binds d c m) = c5 @ c6 @ c7"
    by (simp add: core_binds_def d4_def[symmetric] 5 6 7)
  then show ?thesis
    by (simp add: d4_def[symmetric] b5 b6 b7 Let_def)
qed

lemma core_binds_post:
  "D = snd (core_binds d c m) \<Longrightarrow>
   currentBlendMode D = draw_blend c \<and>
   vertex_program (drawstate D) = (if draw_texture c \<noteq> 0 then textureVertexProgram D else colorVertexProgram D) \<and>
   fragment_program (drawstate D) = (if draw_texture c \<noteq> 0 then textureFragmentProgram D else colorFragmentProgram D) \<and>
   ds_texture (drawstate D) = draw_texture c \<and>
   blendFragmentPrograms D = blendFragmentPrograms d"
proof -
  assume D: "D = snd (core_binds d c m)"
  define d4 where "d4 = VITA_GXM_SetBlendMode d (draw_blend c)"
  obtain c5 d5 where 5: "SetDrawState_programs d4 (draw_texture c) m = (c5, d5)" by (metis surj_pair)
  obtain c6 d6 where 6: "SetDrawState_sampler d5 c = (c6, d6)" by (metis surj_pair)
  obtain c7 d7 where 7: "SetDrawState_texture d6 (draw_texture c) = (c7, d7)" by (metis surj_pair)
  have D7: "D = d7" using D by (simp add: core_binds_def d4_def[symmetric] 5 6 7)
  have p4: "currentBlendMode d4 = draw_blend c" "blendFragmentPrograms d4 = blendFragmentPrograms d"
    by (simp_all add: d4_def VITA_GXM_SetBlendMode_def Let_def)
  have p5: "currentBlendMode d5 = draw_blend c \<and> blendFragmentPrograms d5 = blendFragmentPrograms d \<and>
     vertex_program (drawstate d5) = (if draw_texture c \<noteq> 0 then textureVertexProgram d5 else colorVertexProgram d5) \<and>
     fragment_program (drawstate d5) = (if draw_texture c \<noteq> 0 then textureFragmentProgram d5 else colorFragmentProgram d5)"
    using 5 p4 by (auto simp: SetDrawState_programs_def Let_def)
  have v6: "binds_view d6 = binds_view d5" using view_sampler[of d5 c] 6 by simp
  have p6: "currentBlendMode d6 = draw_blend c \<and> blendFragmentPrograms d6 = blendFragmentPrograms d \<and>
     vertex_program (drawstate d6) = (if draw_texture c \<noteq> 0 then textureVertexProgram d6 else colorVertexProgram d6) \<and>
     fragment_program (drawstate d6) = (if draw_texture c \<noteq> 0 then textureFragmentProgram d6 else colorFragmentProgram d6)"
    using p5 v6 by (simp add: binds_view_def)
  show ?thesis unfolding D7 using 7 p6
    by (auto simp: SetDrawState_texture_def split: if_splits)
qed


lemma binds_after_draw_state:
  assumes tex: "draw_texture c2 = draw_texture c1"
    and v: "binds_view d2 = binds_view (snd (snd (SetDrawState d c1)))"
    and fp: "fp = (if draw_texture c2 \<noteq> 0
                   then fp_texture (blend_programs (blendFragmentPrograms d2) (draw_blend c2))
                   else fp_color (blend_programs (blendFragmentPrograms d2) (draw_blend c2)))"
  shows "(draw_blend c2 = draw_blend c1 \<longrightarrow> bind_calls (fst (snd (SetDrawState d2 c2))) = []) \<and>
         (draw_blend c2 \<noteq> draw_blend c1 \<longrightarrow>
            bind_calls (fst (snd (SetDrawState d2 c2))) =
              (if fragment_program (drawstate d2) \<noteq> fp then [sceGxmSetFragmentProgram fp] else []))"
proof -
  define d1 where "d1 = snd (snd (SetDrawState d c1))"
  obtain e m where e: "d1 = snd (core_binds e c1 m)"
    using SetDrawState_core[of d c1] d1_def by auto
  note post1 = core_binds_post[OF e]
  have v': "binds_view d2 = binds_view d1" using v by (simp add: d1_def)
  have post: "currentBlendMode d2 = draw_blend c1"
    "vertex_program (drawstate d2) = (if draw_texture c1 \<noteq> 0 then textureVertexProgram d2 else colorVertexProgram d2)"
    "fragment_program (drawstate d2) = (if draw_texture c1 \<noteq> 0 then textureFragmentProgram d2 else colorFragmentProgram d2)"
    "ds_texture (drawstate d2) = draw_texture c1"
    using post1 v' by (simp_all add: binds_view_def)
  obtain e' m' where w: "binds_view e' = binds_view d2"
    and b: "bind_calls (fst (snd (SetDrawState d2 c2))) = bind_calls (fst (core_binds e' c2 m'))"
    using SetDrawState_core[of d2 c2] by auto
  have f: "currentBlendMode e' = draw_blend c1"
    "blendFragmentPrograms e' = blendFragmentPrograms d2"
    "colorVertexProgram e' = colorVertexProgram d2" "textureVertexProgram e' = textureVertexProgram d2"
    "colorFragmentProgram e' = colorFragmentProgram d2" "textureFragmentProgram e' = textureFragmentProgram d2"
    "vertex_program (drawstate e') = vertex_program (drawstate d2)"
    "fragment_program (drawstate e') = fragment_program (drawstate d2)"
    "ds_texture (drawstate e') = draw_texture c1"
    using w post by (simp_all add: binds_view_def)
  show ?thesis
  proof (cases "draw_blend c2 = draw_blend c1")
    case True
    have "VITA_GXM_SetBlendMode e' (draw_blend c2) = e'"
      using True f(1) by (simp add: VITA_GXM_SetBlendMode_def)
    then show ?thesis
      using True b post f tex by (simp add: core_binds_calls Let_def)
  next
    case False
    define e4 where "e4 = VITA_GXM_SetBlendMode e' (draw_blend c2)"
    have e4: "colorVertexProgram e4 = colorVertexProgram d2" "textureVertexProgram e4 = textureVertexProgram d2"
      "colorFragmentProgram e4 = fp_color (blend_programs (blendFragmentPrograms d2) (draw_blend c2))"
      "textureFragmentProgram e4 = fp_texture (blend_programs (blendFragmentPrograms d2) (draw_blend c2))"
      "vertex_program (drawstate e4) = vertex_program (drawstate d2)"
      "fragment_program (drawstate e4) = fragment_program (drawstate d2)"
      "ds_texture (drawstate e4) = draw_texture c1"
      using False f by (simp_all add: e4_def VITA_GXM_SetBlendMode_def Let_def)
    show ?thesis
      using False b post tex fp e4 by (simp add: core_binds_calls Let_def e4_def[symmetric])
  qed
qed

lemma view_last_command [simp]:
  "binds_view (d\<lparr>drawstate := (drawstate d)\<lparr>last_command := x\<rparr>\<rparr>) = binds_view d"
  by (simp add: binds_view_def)

lemma state_cmd_view:
  assumes "\<not> is_draw_cmd (command c)" "command c \<noteq> SDL_RENDERCMD_CLEAR"
  shows "fst (state_cmd d c) = [] \<and> binds_view (snd (state_cmd d c)) = binds_view d"
  using assms
  by (simp add: state_cmd_def cmd_SETVIEWPORT_def cmd_SETCLIPRECT_def binds_view_def Let_def)

lemma run_commands_view:
  "\<forall>c\<in>set mid. \<not> is_draw_cmd (command c) \<and> command c \<noteq> SDL_RENDERCMD_CLEAR \<Longrightarrow>
   fst (run_commands d mid) = [] \<and> binds_view (snd (run_commands d mid)) = binds_view d"
proof (induction mid arbitrary: d)
  case Nil
  then show ?case by simp
next
  case (Cons c mid)
  have c: "\<not> is_draw_cmd (command c)" "command c \<noteq> SDL_RENDERCMD_CLEAR"
    using Cons.prems by simp_all
  obtain calls d1 where s: "state_cmd d c = (calls, d1)" by (metis surj_pair)
  have sv: "calls = []" "binds_view d1 = binds_view d"
    using state_cmd_view[OF c, of d] s by simp_all
  let ?d2 = "d1\<lparr>drawstate := (drawstate d1)\<lparr>last_command := Some (command c)\<rparr>\<rparr>"
  have IH: "fst (run_commands ?d2 mid) = [] \<and> binds_view (snd (run_commands ?d2 mid)) = binds_view ?d2"
    using Cons.prems by (intro Cons.IH) simp
  show ?case
    unfolding run_commands_other[OF c(1) s] using IH sv by simp
qed

lemma draw_batch_state: "snd (draw_batch d c n) = snd (snd (SetDrawState d c))"
  by (simp add: draw_batch_def split_beta Let_def)

lemma draw_batch_binds:
  "bind_calls (fst (draw_batch d c n)) = bind_calls (fst (snd (SetDrawState d c)))"
  by (simp add: draw_batch_def split_beta Let_def SetDrawState_ret) (simp add: bind_calls_def)

lemma run_commands_batch_view:
  assumes c1: "is_draw_cmd (command c1)" and run1: "\<forall>c\<in>set run1. joins c1 c"
  shows "binds_view (snd (run_commands d (c1 # run1))) = binds_view (snd (snd (SetDrawState d c1)))"
proof -
  have all: "\<forall>c\<in>set run1. command c = command c1 \<and> draw_texture c = draw_texture c1
               \<and> draw_blend c = draw_blend c1"
    using run1 by (simp add: joins_def)
  have m: "merge_draws (command c1) (draw_texture c1) (draw_blend c1) (draw_count c1) run1
             = (draw_count c1 + sum_list (map draw_count run1), [])"
    using merge_draws_all[OF all, of "[]" "draw_count c1"] by simp
  obtain calls d1 where b: "draw_batch d c1 (draw_count c1 + sum_list (map draw_count run1)) = (calls, d1)"
    by (metis surj_pair)
  have "d1 = snd (snd (SetDrawState d c1))"
    using draw_batch_state[of d c1 "draw_count c1 + sum_list (map draw_count run1)"] b by simp
  then show ?thesis unfolding run_commands_draw[OF c1 m b] by simp
qed

lemma run_commands_batch_binds:
  assumes c1: "is_draw_cmd (command c1)" and run1: "\<forall>c\<in>set run1. joins c1 c"
  shows "bind_calls (fst (run_commands d (c1 # run1))) = bind_calls (fst (snd (SetDrawState d c1)))"
proof -
  have all: "\<forall>c\<in>set run1. command c = command c1 \<and> draw_texture c = draw_texture c1
               \<and> draw_blend c = draw_blend c1"
    using run1 by (simp add: joins_def)
  have m: "merge_draws (command c1) (draw_texture c1) (draw_blend c1) (draw_count c1) run1
             = (draw_count c1 + sum_list (map draw_count run1), [])"
    using merge_draws_all[OF all, of "[]" "draw_count c1"] by simp
  obtain calls d1 where b: "draw_batch d c1 (draw_count c1 + sum_list (map draw_count run1)) = (calls, d1)"
    by (metis surj_pair)
  have "bind_calls calls = bind_calls (fst (snd (SetDrawState d c1)))"
    using draw_batch_binds[of d c1 "draw_count c1 + sum_list (map draw_count run1)"] b by simp
  then show ?thesis unfolding run_commands_draw[OF c1 m b] by simp
qed

text \<open>
  Claim C7 (draw-state cache), as amended.  In a queue handed to
  \<^verbatim>\<open>VITA_GXM_RunCommandQueue\<close> let \<open>c1 # run1\<close> be a batch of draw commands, \<open>mid\<close>
  commands that are neither draw commands nor Clear, and \<open>c2\<close> the next draw command,
  with the texture of \<open>c1\<close> and not merged into its batch.  The commands \<open>run1\<close>, which
  have the type, texture and blend mode of \<open>c1\<close> and are merged into its batch, add no
  bind call to those of \<open>c1\<close>.  The native calls of the
  queue are those made up to \<open>c2\<close>, the calls of the batch of \<open>c2\<close>, and the rest.  If
  \<open>c2\<close> has the blend mode of \<open>c1\<close>, the calls of its batch bind no vertex program, no
  fragment program and no texture.  If only the blend mode differs, they bind no vertex
  program and no texture; this backend has no blend-state call, a blend mode is a pair of
  fragment programs, and they bind the fragment program of the new mode (one
  \<^verbatim>\<open>sceGxmSetFragmentProgram\<close>) unless that program is the one already bound.
\<close>

theorem draw_state_cache_in_queue:
  assumes c1: "is_draw_cmd (command c1)" and c2: "is_draw_cmd (command c2)"
    and run1: "\<forall>c\<in>set run1. joins c1 c"
    and mid: "\<forall>c\<in>set mid. \<not> is_draw_cmd (command c) \<and> command c \<noteq> SDL_RENDERCMD_CLEAR"
    and sep: "mid \<noteq> [] \<or> \<not> joins c1 c2"
    and pre: "pre = [] \<or> \<not> joins (last pre) c1"
    and tex: "draw_texture c2 = draw_texture c1"
    and d1: "d1 = snd (run_commands (snd (RunCommandQueue_entry start target w h d)) pre)"
    and d2: "d2 = snd (run_commands d1 (c1 # run1 @ mid))"
    and mg: "merge_draws (command c2) (draw_texture c2) (draw_blend c2) (draw_count c2) post
               = (count, rest)"
    and d3: "d3 = (snd (draw_batch d2 c2 count))
                    \<lparr>drawstate := (drawstate (snd (draw_batch d2 c2 count)))
                                    \<lparr>last_command := Some (command c2)\<rparr>\<rparr>"
    and fp: "fp = (if draw_texture c2 \<noteq> 0
                   then fp_texture (blend_programs (blendFragmentPrograms d2) (draw_blend c2))
                   else fp_color (blend_programs (blendFragmentPrograms d2) (draw_blend c2)))"
  shows "fst (snd (VITA_GXM_RunCommandQueue start target w h d (pre @ c1 # run1 @ mid @ c2 # post)))
           = fst (start d)
             @ fst (run_commands (snd (RunCommandQueue_entry start target w h d)) pre)
             @ fst (run_commands d1 (c1 # run1 @ mid))
             @ fst (draw_batch d2 c2 count)
             @ fst (run_commands d3 rest) @ [sceGxmEndScene]
       \<and> bind_calls (fst (run_commands d1 (c1 # run1))) = bind_calls (fst (snd (SetDrawState d1 c1)))
       \<and> (draw_blend c2 = draw_blend c1 \<longrightarrow> bind_calls (fst (draw_batch d2 c2 count)) = [])
       \<and> (draw_blend c2 \<noteq> draw_blend c1 \<longrightarrow>
            bind_calls (fst (draw_batch d2 c2 count)) =
              (if fragment_program (drawstate d2) \<noteq> fp then [sceGxmSetFragmentProgram fp] else []))"
proof -
  define d0 where "d0 = snd (RunCommandQueue_entry start target w h d)"
  have e: "RunCommandQueue_entry start target w h d = (fst (start d), d0)"
    unfolding d0_def by (simp add: RunCommandQueue_entry_def Let_def split_beta)
  define b1 where "b1 = c1 # run1"
  have b1ne: "b1 \<noteq> []" by (simp add: b1_def)
  have lastb1: "joins c1 (last b1) \<or> last b1 = c1"
    using run1 by (cases "run1 = []") (auto simp: b1_def)
  have mid_nj: "\<And>a. mid \<noteq> [] \<Longrightarrow> \<not> joins a (hd mid)"
  proof -
    fix a assume "mid \<noteq> []"
    then have "hd mid \<in> set mid" by simp
    then have "\<not> is_draw_cmd (command (hd mid))" using mid by blast
    then show "\<not> joins a (hd mid)" by (auto simp: joins_def)
  qed
  have A: "run_commands d1 (b1 @ mid) =
        (fst (run_commands d1 b1) @ fst (run_commands (snd (run_commands d1 b1)) mid),
         snd (run_commands (snd (run_commands d1 b1)) mid))"
    using run_commands_append[OF b1ne, of mid d1] mid_nj by blast
  have dv: "binds_view d2 = binds_view (snd (snd (SetDrawState d1 c1)))"
  proof -
    have "d2 = snd (run_commands (snd (run_commands d1 b1)) mid)"
      using d2 A by (simp add: b1_def)
    then have "binds_view d2 = binds_view (snd (run_commands d1 b1))"
      using run_commands_view[OF mid] by simp
    then show ?thesis using run_commands_batch_view[OF c1 run1, of d1] by (simp add: b1_def)
  qed
  define p2 where "p2 = b1 @ mid"
  have p2ne: "p2 \<noteq> []" by (simp add: p2_def b1_def)
  have nj2: "\<not> joins (last p2) c2"
  proof (cases "mid = []")
    case True
    then have "\<not> joins c1 c2" using sep by simp
    moreover have "last p2 = last b1" using True by (simp add: p2_def)
    ultimately show ?thesis using lastb1 c1 by (auto simp: joins_def)
  next
    case False
    then have "last p2 = last mid" "last mid \<in> set mid" by (simp_all add: p2_def)
    then have "\<not> is_draw_cmd (command (last p2))" using mid by simp
    then show ?thesis by (simp add: joins_def)
  qed
  have B: "run_commands d1 (p2 @ c2 # post) =
        (fst (run_commands d1 p2) @ fst (run_commands d2 (c2 # post)),
         snd (run_commands d2 (c2 # post)))"
    using run_commands_append[OF p2ne, of "c2 # post" d1] nj2 d2 by (simp add: p2_def b1_def)
  obtain calls dd where db: "draw_batch d2 c2 count = (calls, dd)" by (metis surj_pair)
  have C: "run_commands d2 (c2 # post) =
        (fst (draw_batch d2 c2 count) @ fst (run_commands d3 rest), snd (run_commands d3 rest))"
    using run_commands_draw[OF c2 mg db] d3 db by simp
  have nj1: "p2 @ c2 # post = [] \<or> \<not> joins (last pre) (hd (p2 @ c2 # post))"
    if "pre \<noteq> []"
    using pre that by (simp add: p2_def b1_def)
  have D: "run_commands d0 (pre @ p2 @ c2 # post) =
        (fst (run_commands d0 pre) @ fst (run_commands d1 (p2 @ c2 # post)),
         snd (run_commands d1 (p2 @ c2 # post)))"
  proof (cases "pre = []")
    case True
    then show ?thesis using d1 by (simp add: d0_def)
  next
    case False
    from run_commands_append[OF False nj1[OF False], of d0] d1 show ?thesis by (simp add: d0_def)
  qed
  have Q: "fst (snd (VITA_GXM_RunCommandQueue start target w h d (pre @ p2 @ c2 # post))) =
      fst (start d) @ fst (run_commands d0 (pre @ p2 @ c2 # post)) @ [sceGxmEndScene]"
    by (simp add: VITA_GXM_RunCommandQueue_def e split_beta)
  have 1: "fst (snd (VITA_GXM_RunCommandQueue start target w h d (pre @ c1 # run1 @ mid @ c2 # post)))
           = fst (start d) @ fst (run_commands d0 pre) @ fst (run_commands d1 (c1 # run1 @ mid))
             @ fst (draw_batch d2 c2 count) @ fst (run_commands d3 rest) @ [sceGxmEndScene]"
    using Q D B C by (simp add: p2_def b1_def)
  note bd = binds_after_draw_state[OF tex dv fp]
  note mb = run_commands_batch_binds[OF c1 run1, of d1]
  show ?thesis using 1 bd mb by (simp add: draw_batch_binds d0_def)
qed

text \<open>
  A frame begun by \<^verbatim>\<open>StartDrawing\<close>: points, a viewport change and lines with the blend
  mode of the points, then with another blend mode.
\<close>

theorem draw_state_cache_in_queue_witness:
  "bind_calls (fst (draw_batch
      (snd (run_commands (snd (RunCommandQueue_entry (StartDrawing 0) 0 960 544
                                 (example_gxm\<lparr>drawing := False\<rparr>)))
         [draw_cmd SDL_RENDERCMD_DRAW_POINTS 0 SDL_BLENDMODE_BLEND 3,
          viewport_cmd \<lparr>rect_x = 0, rect_y = 0, rect_w = 50, rect_h = 50\<rparr>]))
      (draw_cmd SDL_RENDERCMD_DRAW_LINES 0 SDL_BLENDMODE_BLEND 4) 4)) = [] \<and>
   bind_calls (fst (draw_batch
      (snd (run_commands (snd (RunCommandQueue_entry (StartDrawing 0) 0 960 544
                                 (example_gxm\<lparr>drawing := False\<rparr>)))
         [draw_cmd SDL_RENDERCMD_DRAW_POINTS 0 SDL_BLENDMODE_BLEND 3,
          viewport_cmd \<lparr>rect_x = 0, rect_y = 0, rect_w = 50, rect_h = 50\<rparr>]))
      (draw_cmd SDL_RENDERCMD_DRAW_LINES 0 SDL_BLENDMODE_ADD 4) 4))
     = [sceGxmSetFragmentProgram 31]"
proof -
  let ?c1 = "draw_cmd SDL_RENDERCMD_DRAW_POINTS 0 SDL_BLENDMODE_BLEND 3"
  let ?v = "viewport_cmd \<lparr>rect_x = 0, rect_y = 0, rect_w = 50, rect_h = 50\<rparr>"
  let ?d0 = "snd (RunCommandQueue_entry (StartDrawing 0) 0 960 544 (example_gxm\<lparr>drawing := False\<rparr>))"
  let ?d2 = "snd (run_commands ?d0 [?c1, ?v])"
  have p: "blendFragmentPrograms ?d2 = example_progs" "fragment_program (drawstate ?d2) = 21"
    by code_simp+
  have a: "is_draw_cmd (command ?c1)"
    "is_draw_cmd (command (draw_cmd SDL_RENDERCMD_DRAW_LINES 0 SDL_BLENDMODE_BLEND 4))"
    "is_draw_cmd (command (draw_cmd SDL_RENDERCMD_DRAW_LINES 0 SDL_BLENDMODE_ADD 4))"
    "\<forall>c\<in>set []. joins ?c1 c"
    "\<forall>c\<in>set [?v]. \<not> is_draw_cmd (command c) \<and> command c \<noteq> SDL_RENDERCMD_CLEAR"
    "[?v] \<noteq> [] \<or> \<not> joins ?c1 (draw_cmd SDL_RENDERCMD_DRAW_LINES 0 SDL_BLENDMODE_BLEND 4)"
    "[?v] \<noteq> [] \<or> \<not> joins ?c1 (draw_cmd SDL_RENDERCMD_DRAW_LINES 0 SDL_BLENDMODE_ADD 4)"
    "([]::SDL_RenderCommand list) = [] \<or> \<not> joins (last []) ?c1"
    by (simp_all add: is_draw_cmd_def draw_cmd_def viewport_cmd_def)
  have t: "draw_texture (draw_cmd SDL_RENDERCMD_DRAW_LINES 0 SDL_BLENDMODE_BLEND 4) = draw_texture ?c1"
    "draw_texture (draw_cmd SDL_RENDERCMD_DRAW_LINES 0 SDL_BLENDMODE_ADD 4) = draw_texture ?c1"
    by (simp_all add: draw_cmd_def)
  have m: "merge_draws (command (draw_cmd SDL_RENDERCMD_DRAW_LINES 0 SDL_BLENDMODE_BLEND 4))
             (draw_texture (draw_cmd SDL_RENDERCMD_DRAW_LINES 0 SDL_BLENDMODE_BLEND 4))
             (draw_blend (draw_cmd SDL_RENDERCMD_DRAW_LINES 0 SDL_BLENDMODE_BLEND 4))
             (draw_count (draw_cmd SDL_RENDERCMD_DRAW_LINES 0 SDL_BLENDMODE_BLEND 4)) [] = (4, [])"
    "merge_draws (command (draw_cmd SDL_RENDERCMD_DRAW_LINES 0 SDL_BLENDMODE_ADD 4))
             (draw_texture (draw_cmd SDL_RENDERCMD_DRAW_LINES 0 SDL_BLENDMODE_ADD 4))
             (draw_blend (draw_cmd SDL_RENDERCMD_DRAW_LINES 0 SDL_BLENDMODE_ADD 4))
             (draw_count (draw_cmd SDL_RENDERCMD_DRAW_LINES 0 SDL_BLENDMODE_ADD 4)) [] = (4, [])"
    by (simp_all add: draw_cmd_def)
  from draw_state_cache_in_queue[OF a(1) a(2) a(4) a(5) a(6) a(8) t(1) _ _ m(1) refl refl,
          of "snd (run_commands ?d0 [])" "StartDrawing 0" 0 960 544 "example_gxm\<lparr>drawing := False\<rparr>" ?d2]
       draw_state_cache_in_queue[OF a(1) a(3) a(4) a(5) a(7) a(8) t(2) _ _ m(2) refl refl,
          of "snd (run_commands ?d0 [])" "StartDrawing 0" 0 960 544 "example_gxm\<lparr>drawing := False\<rparr>" ?d2]
       p
  show ?thesis by (simp add: draw_cmd_def example_progs_def)
qed

text \<open>
  The claim as stated fails where only the blend mode changes: going from the blend
  mode BLEND to ADD rebinds a program, the fragment program of ADD.
\<close>

theorem blend_change_rebinds_program:
  "sceGxmSetFragmentProgram 31 \<in> set (fst (snd (SetDrawState (snd (snd (SetDrawState example_gxm
        (draw_cmd SDL_RENDERCMD_GEOMETRY 0 SDL_BLENDMODE_BLEND 3))))
        (draw_cmd SDL_RENDERCMD_GEOMETRY 0 SDL_BLENDMODE_ADD 3))))"
  by code_simp


subsection \<open>The clip rectangle handed to the scissor call\<close>

text \<open>
  Claim C8 (clip-rect clamping) does not hold of the code.  With the viewport
  \<open>(0, 0, 50, 50)\<close> and the clip rectangle \<open>(0, 0, 100, 100)\<close>,
  \<^verbatim>\<open>ClampCliprectToViewport\<close> subtracts the negative difference
  \<^verbatim>\<open>max_x_v - max_x_c\<close> from the width, which grows to 150, and likewise the height;
  the scissor call of the next draw gets the corners \<open>(0, 0)\<close> and \<open>(150, 150)\<close>,
  outside the viewport.
\<close>

theorem clamp_grows_cliprect:
  "ClampCliprectToViewport \<lparr>rect_x = 0, rect_y = 0, rect_w = 100, rect_h = 100\<rparr>
      \<lparr>rect_x = 0, rect_y = 0, rect_w = 50, rect_h = 50\<rparr>
     = \<lparr>rect_x = 0, rect_y = 0, rect_w = 150, rect_h = 150\<rparr> \<and>
   filter is_scissor_call (fst (snd (VITA_GXM_RunCommandQueue no_start 0 960 544 example_gxm
     [viewport_cmd \<lparr>rect_x = 0, rect_y = 0, rect_w = 50, rect_h = 50\<rparr>,
      cliprect_cmd True \<lparr>rect_x = 0, rect_y = 0, rect_w = 100, rect_h = 100\<rparr>,
      draw_cmd SDL_RENDERCMD_GEOMETRY 0 SDL_BLENDMODE_BLEND 3])))
     = [set_clip_rectangle 0 0 150 150]"
proof
  show "ClampCliprectToViewport \<lparr>rect_x = 0, rect_y = 0, rect_w = 100, rect_h = 100\<rparr>
      \<lparr>rect_x = 0, rect_y = 0, rect_w = 50, rect_h = 50\<rparr>
     = \<lparr>rect_x = 0, rect_y = 0, rect_w = 150, rect_h = 150\<rparr>"
    by (simp add: ClampCliprectToViewport_def)
  show "filter is_scissor_call (fst (snd (VITA_GXM_RunCommandQueue no_start 0 960 544 example_gxm
     [viewport_cmd \<lparr>rect_x = 0, rect_y = 0, rect_w = 50, rect_h = 50\<rparr>,
      cliprect_cmd True \<lparr>rect_x = 0, rect_y = 0, rect_w = 100, rect_h = 100\<rparr>,
      draw_cmd SDL_RENDERCMD_GEOMETRY 0 SDL_BLENDMODE_BLEND 3])))
     = [set_clip_rectangle 0 0 150 150]"
    by code_simp
qed

subsection \<open>Locking a render target\<close>

text \<open>
  Claim C9 (a lock of a render target drains the pipeline), as the code has it.  On the
  tile-based backend \<^verbatim>\<open>VITA_GXM_LockTexture\<close> of a texture that has a render target
  calls \<^verbatim>\<open>sceGxmFinish\<close> before it returns the pointer.  \<^verbatim>\<open>PSP_LockTexture\<close> of the
  other backend makes no call, whatever the texture.
\<close>

theorem lock_drains_gxm_render_target:
  "(gxm_rendertarget (tex vt) \<noteq> 0 \<longrightarrow>
      fst (VITA_GXM_LockTexture vt datap bpp rect) = [sceGxmFinish]) \<and>
   fst (PSP_LockTexture pt tx rect) = []"
  by (simp add: VITA_GXM_LockTexture_def PSP_LockTexture_def Let_def)

theorem lock_drains_gxm_render_target_witness:
  "gxm_rendertarget (tex example_vita_texture) \<noteq> 0 \<and>
   fst (VITA_GXM_LockTexture example_vita_texture 65536 4
          \<lparr>rect_x = 0, rect_y = 0, rect_w = 16, rect_h = 16\<rparr>) = [sceGxmFinish] \<and>
   fst (PSP_LockTexture example_psp_target example_sdl_target
          \<lparr>rect_x = 0, rect_y = 0, rect_w = 16, rect_h = 16\<rparr>) = []"
  using lock_drains_gxm_render_target[of example_vita_texture 65536 4
          "\<lparr>rect_x = 0, rect_y = 0, rect_w = 16, rect_h = 16\<rparr>" example_psp_target example_sdl_target]
  by (simp add: example_vita_texture_def)

text \<open>
  The claim as stated fails on the PSP backend: the lock of a texture of access
  \<^verbatim>\<open>SDL_TEXTUREACCESS_TARGET\<close> that lives in video memory returns without
  \<^verbatim>\<open>sceGuFinish\<close> or \<^verbatim>\<open>sceGuSync\<close>.
\<close>

theorem psp_lock_does_not_drain:
  "access example_sdl_target = SDL_TEXTUREACCESS_TARGET \<and>
   InVram (data example_psp_target) \<and>
   sceGuFinish \<notin> set (fst (PSP_LockTexture example_psp_target example_sdl_target
          \<lparr>rect_x = 0, rect_y = 0, rect_w = 16, rect_h = 16\<rparr>)) \<and>
   sceGuSync \<notin> set (fst (PSP_LockTexture example_psp_target example_sdl_target
          \<lparr>rect_x = 0, rect_y = 0, rect_w = 16, rect_h = 16\<rparr>))"
  by (simp add: example_sdl_target_def example_psp_target_def InVram_def PSP_LockTexture_def)

section \<open>The residency manager: LRU list, eviction, binding\<close>

subsection \<open>The list operations\<close>

lemma dseg_nonzero: "dseg pv nx p q xs r \<Longrightarrow> 0 \<notin> set xs"
  by (induction xs arbitrary: p q) auto

lemma dseg_cong:
  "\<forall>x\<in>set xs. pv' x = pv x \<and> nx' x = nx x \<Longrightarrow>
   dseg pv' nx' p q xs r = dseg pv nx p q xs r"
  by (induction xs arbitrary: p q) auto

lemma dseg_append:
  "dseg pv nx p q (as @ bs) r =
     (\<exists>m. dseg pv nx p q as m \<and> dseg pv nx (if as = [] then p else last as) m bs r)"
  by (induction as arbitrary: p q) auto

lemma dseg_snoc:
  "dseg pv nx p q (as @ [a]) r =
     (dseg pv nx p q as a \<and> a \<noteq> 0 \<and> pv a = (if as = [] then p else last as) \<and> nx a = r)"
  by (auto simp: dseg_append)

lemma dseg_hd: "dseg pv nx p q xs r \<Longrightarrow> xs \<noteq> [] \<Longrightarrow> q = hd xs"
  by (cases xs) auto

lemma dseg_change_head_prev:
  assumes "dseg pv nx t N bs r" "distinct bs"
    and "\<forall>x\<in>set bs. nx' x = nx x \<and> (x \<noteq> N \<longrightarrow> pv' x = pv x)"
    and "bs \<noteq> [] \<longrightarrow> pv' N = P"
  shows "dseg pv' nx' P N bs r"
proof (cases bs)
  case Nil
  with assms show ?thesis by simp
next
  case (Cons b bs')
  with assms have b: "N = b" "b \<noteq> 0" "dseg pv nx b (nx b) bs' r" "b \<notin> set bs'" by auto
  have "\<forall>x\<in>set bs'. pv' x = pv x \<and> nx' x = nx x"
    using assms(3) b Cons by auto
  from dseg_cong[OF this] b have "dseg pv' nx' b (nx b) bs' r" by simp
  moreover have "nx' b = nx b" using assms(3) Cons by simp
  ultimately show ?thesis using Cons b assms(4) by simp
qed

lemma dseg_change_last_next:
  assumes "dseg pv nx p q as m" "distinct as"
    and "\<forall>x\<in>set as. pv' x = pv x \<and> (x \<noteq> last as \<longrightarrow> nx' x = nx x)"
    and "as \<noteq> [] \<longrightarrow> nx' (last as) = m'"
    and "q' = (if as = [] then m' else q)"
  shows "dseg pv' nx' p q' as m'"
proof (cases as rule: rev_cases)
  case Nil
  with assms show ?thesis by simp
next
  case (snoc as' a)
  with assms(1) have a: "dseg pv nx p q as' a" "a \<noteq> 0"
    "pv a = (if as' = [] then p else last as')" by (auto simp: dseg_snoc)
  have na: "a \<notin> set as'" using assms(2) snoc by simp
  have "\<forall>x\<in>set as'. pv' x = pv x \<and> nx' x = nx x"
    using assms(3) snoc na by auto
  from dseg_cong[OF this] a have "dseg pv' nx' p q as' a" by simp
  moreover have "pv' a = pv a" using assms(3) snoc by simp
  moreover have "nx' a = m'" using assms(4) snoc by simp
  ultimately show ?thesis using snoc a assms(5) by (simp add: dseg_snoc)
qed

lemma LRUTargetRemove_frame:
  fixes d :: "'m PSP_RenderData"
  shows "mem (LRUTargetRemove d t) = mem d"
    and "boundTarget (LRUTargetRemove d t) = boundTarget d"
    and "textures (LRUTargetRemove d t) = textures d"
  by (simp_all add: LRUTargetRemove_def LRUTargetRelink_def Let_def)

lemma LRUTargetPushFront_frame:
  fixes d :: "'m PSP_RenderData"
  shows "mem (LRUTargetPushFront d t) = mem d"
    and "boundTarget (LRUTargetPushFront d t) = boundTarget d"
    and "textures (LRUTargetPushFront d t) = textures d"
  by (simp_all add: LRUTargetPushFront_def Let_def)

lemma LRUTargetRemove_at:
  fixes d :: "'m PSP_RenderData"
  assumes "prevhotw d t \<noteq> t" "nexthotw d t \<noteq> t"
  shows "prevhotw (LRUTargetRemove d t) x =
           (if x = t then 0 else if x = nexthotw d t \<and> x \<noteq> 0 then prevhotw d t else prevhotw d x)"
    and "nexthotw (LRUTargetRemove d t) x =
           (if x = t then 0 else if x = prevhotw d t \<and> x \<noteq> 0 then nexthotw d t else nexthotw d x)"
    and "most_recent_target (LRUTargetRemove d t) =
           (if most_recent_target d = t then nexthotw d t else most_recent_target d)"
    and "least_recent_target (LRUTargetRemove d t) =
           (if least_recent_target d = t then prevhotw d t else least_recent_target d)"
  using assms by (simp_all add: LRUTargetRemove_def LRUTargetRelink_def Let_def)

lemma LRUTargetPushFront_at:
  fixes d :: "'m PSP_RenderData"
  shows "prevhotw (LRUTargetPushFront d t) x =
           (if x = most_recent_target d \<and> x \<noteq> 0 then t else prevhotw d x)"
    and "nexthotw (LRUTargetPushFront d t) x = (if x = t then most_recent_target d else nexthotw d x)"
    and "most_recent_target (LRUTargetPushFront d t) = t"
    and "least_recent_target (LRUTargetPushFront d t) =
           (if least_recent_target d = 0 then t else least_recent_target d)"
  by (simp_all add: LRUTargetPushFront_def Let_def)


lemma lru_inv_most:
  "lru_inv d xs \<Longrightarrow> most_recent_target d = (if xs = [] then 0 else hd xs)"
  by (cases xs) (auto simp: lru_inv_def)

lemma lru_inv_nonzero: "lru_inv d xs \<Longrightarrow> 0 \<notin> set xs"
  by (auto simp: lru_inv_def dest: dseg_nonzero)

lemma lru_push_front:
  fixes d :: "'m PSP_RenderData"
  assumes inv: "lru_inv d xs" and t: "t \<noteq> 0" "t \<notin> set xs" "prevhotw d t = 0"
  shows "lru_inv (LRUTargetPushFront d t) (t # xs)"
proof -
  let ?d = "LRUTargetPushFront d t"
  have seg: "dseg (prevhotw d) (nexthotw d) 0 (most_recent_target d) xs 0"
    and dist: "distinct xs" and least: "least_recent_target d = (if xs = [] then 0 else last xs)"
    using inv by (simp_all add: lru_inv_def)
  have nz: "0 \<notin> set xs" using inv by (rule lru_inv_nonzero)
  have most: "most_recent_target d = (if xs = [] then 0 else hd xs)" using inv by (rule lru_inv_most)
  have "dseg (prevhotw ?d) (nexthotw ?d) t (most_recent_target d) xs 0"
  proof (rule dseg_change_head_prev[OF seg dist])
    show "\<forall>x\<in>set xs. nexthotw ?d x = nexthotw d x \<and>
            (x \<noteq> most_recent_target d \<longrightarrow> prevhotw ?d x = prevhotw d x)"
      using t by (auto simp: LRUTargetPushFront_at)
    show "xs \<noteq> [] \<longrightarrow> prevhotw ?d (most_recent_target d) = t"
    proof
      assume "xs \<noteq> []"
      then have "hd xs \<noteq> 0" using nz hd_in_set[of xs] by metis
      then show "prevhotw ?d (most_recent_target d) = t"
        using most \<open>xs \<noteq> []\<close> by (simp add: LRUTargetPushFront_at)
    qed
  qed
  moreover have "prevhotw ?d t = 0"
    using t most by (auto simp: LRUTargetPushFront_at)
  moreover have "nexthotw ?d t = most_recent_target d" by (simp add: LRUTargetPushFront_at)
  ultimately have "dseg (prevhotw ?d) (nexthotw ?d) 0 (most_recent_target ?d) (t # xs) 0"
    using t by (simp add: LRUTargetPushFront_at)
  moreover have "least_recent_target ?d = last (t # xs)"
  proof (cases "xs = []")
    case True
    then show ?thesis using least by (simp add: LRUTargetPushFront_at)
  next
    case False
    then have "last xs \<noteq> 0" using nz last_in_set[of xs] by metis
    then show ?thesis using least False by (simp add: LRUTargetPushFront_at)
  qed
  ultimately show ?thesis using dist t by (simp add: lru_inv_def)
qed

lemma lru_remove:
  fixes d :: "'m PSP_RenderData"
  assumes inv: "lru_inv d xs" and t: "t \<in> set xs"
  shows "lru_inv (LRUTargetRemove d t) (remove1 t xs)"
    and "unlinked (LRUTargetRemove d t) t"
    and "\<forall>u. u \<notin> set xs \<longrightarrow> prevhotw (LRUTargetRemove d t) u = prevhotw d u
                             \<and> nexthotw (LRUTargetRemove d t) u = nexthotw d u"
proof -
  let ?d = "LRUTargetRemove d t"
  let ?pv = "prevhotw d" and ?nx = "nexthotw d"
  have seg: "dseg ?pv ?nx 0 (most_recent_target d) xs 0"
    and dist: "distinct xs" and least: "least_recent_target d = (if xs = [] then 0 else last xs)"
    using inv by (simp_all add: lru_inv_def)
  have nz: "0 \<notin> set xs" using inv by (rule lru_inv_nonzero)
  from t obtain as bs where xs: "xs = as @ t # bs" by (auto dest: split_list)
  have d1: "distinct as" "distinct bs" "t \<notin> set as" "t \<notin> set bs" "set as \<inter> set bs = {}"
    using dist xs by auto
  have tz: "t \<noteq> 0" using nz t by metis
  have lz: "as \<noteq> [] \<Longrightarrow> last as \<noteq> 0" using nz xs last_in_set[of as] by (metis Un_iff set_append)
  have hz: "bs \<noteq> [] \<Longrightarrow> hd bs \<noteq> 0" using nz xs hd_in_set[of bs] by (metis Un_iff list.set_intros(2) set_append)
  obtain m where A: "dseg ?pv ?nx 0 (most_recent_target d) as m"
    and B: "dseg ?pv ?nx (if as = [] then 0 else last as) m (t # bs) 0"
    using seg unfolding xs dseg_append by blast
  have m: "m = t" and P: "?pv t = (if as = [] then 0 else last as)"
    and C: "dseg ?pv ?nx t (?nx t) bs 0"
    using B by auto
  have N: "?nx t = (if bs = [] then 0 else hd bs)" using C by (cases bs) auto
  have Pt: "?pv t \<noteq> t" using P d1 tz by (cases "as = []") auto
  have Nt: "?nx t \<noteq> t" using N d1 tz by (cases "bs = []") auto
  have PN: "?pv t \<noteq> 0 \<Longrightarrow> ?pv t \<in> set as" using P by (cases "as = []") auto
  have NN: "?nx t \<noteq> 0 \<Longrightarrow> ?nx t \<in> set bs" using N by (cases "bs = []") auto
  note at = LRUTargetRemove_at[OF Pt Nt]
  have most: "most_recent_target d = (if as = [] then t else hd as)"
    using lru_inv_most[OF inv] xs by (cases as) auto
  have most': "most_recent_target ?d = (if as = [] then ?nx t else most_recent_target d)"
    using most d1 by (cases as) (auto simp: at)
  have A': "dseg (prevhotw ?d) (nexthotw ?d) 0 (most_recent_target ?d) as (?nx t)"
  proof (rule dseg_change_last_next[OF A d1(1)])
    show "\<forall>x\<in>set as. prevhotw ?d x = ?pv x \<and> (x \<noteq> last as \<longrightarrow> nexthotw ?d x = ?nx x)"
      using d1 NN P by (auto simp: at)
    show "as \<noteq> [] \<longrightarrow> nexthotw ?d (last as) = ?nx t"
      using d1 P lz by (auto simp: at)
    show "most_recent_target ?d = (if as = [] then ?nx t else most_recent_target d)"
      by (rule most')
  qed
  have B': "dseg (prevhotw ?d) (nexthotw ?d) (?pv t) (?nx t) bs 0"
  proof (rule dseg_change_head_prev[OF C d1(2)])
    show "\<forall>x\<in>set bs. nexthotw ?d x = ?nx x \<and> (x \<noteq> ?nx t \<longrightarrow> prevhotw ?d x = ?pv x)"
      using d1 PN by (auto simp: at)
    show "bs \<noteq> [] \<longrightarrow> prevhotw ?d (?nx t) = ?pv t"
      using d1 N hz by (auto simp: at)
  qed
  have "dseg (prevhotw ?d) (nexthotw ?d) 0 (most_recent_target ?d) (as @ bs) 0"
    unfolding dseg_append using A' B' P by auto
  moreover have "remove1 t xs = as @ bs" using xs d1 by (simp add: remove1_append)
  moreover have "distinct (as @ bs)" using d1 by auto
  moreover have "least_recent_target ?d = (if as @ bs = [] then 0 else last (as @ bs))"
    using least xs P d1 by (cases "bs = []") (auto simp: at)
  ultimately show "lru_inv ?d (remove1 t xs)" by (simp add: lru_inv_def)
  show "unlinked ?d t" by (simp add: unlinked_def at)
  show "\<forall>u. u \<notin> set xs \<longrightarrow> prevhotw ?d u = ?pv u \<and> nexthotw ?d u = ?nx u"
    using PN NN xs by (auto simp: at)
qed

lemma lru_remove_absent:
  fixes d :: "'m PSP_RenderData"
  assumes inv: "lru_inv d xs" and t: "t \<notin> set xs" "t \<noteq> 0" "unlinked d t"
  shows "lru_inv (LRUTargetRemove d t) xs"
    and "unlinked (LRUTargetRemove d t) t"
    and "\<forall>u. prevhotw (LRUTargetRemove d t) u = prevhotw d u
            \<and> nexthotw (LRUTargetRemove d t) u = nexthotw d u"
proof -
  let ?d = "LRUTargetRemove d t"
  have u: "prevhotw d t = 0" "nexthotw d t = 0" using t by (simp_all add: unlinked_def)
  have Pt: "prevhotw d t \<noteq> t" and Nt: "nexthotw d t \<noteq> t" using u t by simp_all
  note at = LRUTargetRemove_at[OF Pt Nt]
  have pv: "prevhotw ?d = prevhotw d" and nx: "nexthotw ?d = nexthotw d"
    using u by (auto simp: at fun_eq_iff)
  have most: "most_recent_target d \<noteq> t" using lru_inv_most[OF inv] t by (cases xs) auto
  have least: "least_recent_target d \<noteq> t" using inv t by (cases "xs = []") (auto simp: lru_inv_def)
  show "lru_inv ?d xs" using inv most least by (simp add: lru_inv_def pv nx at)
  show "unlinked ?d t" by (simp add: unlinked_def at)
  show "\<forall>u. prevhotw ?d u = prevhotw d u \<and> nexthotw ?d u = nexthotw d u" by (simp add: pv nx)
qed

lemma lru_bring_front:
  fixes d :: "'m PSP_RenderData"
  assumes inv: "lru_inv d xs" and t: "t \<noteq> 0" "t \<in> set xs \<or> unlinked d t"
  shows "lru_inv (LRUTargetBringFront d t) (t # remove1 t xs)"
proof (cases "most_recent_target d = t")
  case True
  then have "xs \<noteq> [] \<and> hd xs = t" using lru_inv_most[OF inv] t by (cases xs) auto
  then have "t # remove1 t xs = xs" by (cases xs) auto
  then show ?thesis using True inv by (simp add: LRUTargetBringFront_def)
next
  case False
  let ?d = "LRUTargetRemove d t"
  have dist: "distinct xs" using inv by (simp add: lru_inv_def)
  have r: "lru_inv ?d (remove1 t xs)" "unlinked ?d t"
  proof -
    show "lru_inv ?d (remove1 t xs)"
      using lru_remove(1)[OF inv] lru_remove_absent(1)[OF inv] t
      by (cases "t \<in> set xs") (auto simp: remove1_idem)
    show "unlinked ?d t"
      using lru_remove(2)[OF inv] lru_remove_absent(2)[OF inv] t
      by (cases "t \<in> set xs") auto
  qed
  have "t \<notin> set (remove1 t xs)" using dist by simp
  from lru_push_front[OF r(1) t(1) this] r(2) False show ?thesis
    by (simp add: LRUTargetBringFront_def unlinked_def)
qed

subsection \<open>Evictions and the eviction loop\<close>

lemma TextureSwizzle_cases:
  assumes "TextureSwizzle ops t dst m = Some (ok, t', m')"
  shows "(swizzled t \<and> ok \<and> t' = t \<and> m' = m)
       \<or> (\<not> swizzled t \<and> \<not> ok \<and> t' = t \<and> dst = 0 \<and> fst (SDL_malloc ops (size_bytes t) m) = 0
            \<and> m' = snd (SDL_malloc ops (size_bytes t) m))
       \<or> (\<not> swizzled t \<and> ok
            \<and> (\<exists>px nd. nd \<noteq> 0 \<and> nd = (if dst \<noteq> 0 then dst else fst (SDL_malloc ops (size_bytes t) m))
                 \<and> swizzle_buffer (textureWidth t) (bits t) (size_bytes t) (pixels t)
                      (fresh_block (size_bytes t)) = Some px
                 \<and> t' = t\<lparr>data := nd, pixels := px, swizzled := True\<rparr>))"
  using assms
  by (auto simp: TextureSwizzle_def Let_def split_beta split: if_splits option.splits)

lemma TextureUnswizzle_cases:
  assumes "TextureUnswizzle ops t dst m = Some (ok, t', m')"
  shows "(\<not> swizzled t \<and> ok \<and> t' = t \<and> m' = m)
       \<or> (swizzled t \<and> \<not> ok \<and> t' = t \<and> dst = 0 \<and> fst (SDL_malloc ops (size_bytes t) m) = 0
            \<and> m' = snd (SDL_malloc ops (size_bytes t) m))
       \<or> (swizzled t \<and> ok
            \<and> (\<exists>px nd. nd \<noteq> 0 \<and> nd = (if dst \<noteq> 0 then dst else fst (SDL_malloc ops (size_bytes t) m))
                 \<and> unswizzle_buffer (textureWidth t) (bits t) (size_bytes t) (pixels t)
                      (fresh_block (size_bytes t)) = Some px
                 \<and> t' = t\<lparr>data := nd, pixels := px, swizzled := False\<rparr>))"
  using assms
  by (auto simp: TextureUnswizzle_def Let_def split_beta split: if_splits option.splits)

lemma TextureSpillToSram_cases:
  assumes "TextureSpillToSram ops t m = Some (ok, t', m')"
  shows "(\<not> ok \<and> t' = t \<and> fst (SDL_malloc ops (size_bytes t) m) = 0
            \<and> m' = snd (SDL_malloc ops (size_bytes t) m))
       \<or> (ok \<and> swizzled t' \<and> data t' = fst (SDL_malloc ops (size_bytes t) m) \<and> data t' \<noteq> 0
            \<and> size_bytes t' = size_bytes t \<and> textureWidth t' = textureWidth t \<and> bits t' = bits t
            \<and> (swizzled t \<longrightarrow> pixels t' = pixels t)
            \<and> (\<not> swizzled t \<longrightarrow>
                  swizzle_buffer (textureWidth t) (bits t) (size_bytes t) (pixels t)
                      (fresh_block (size_bytes t)) = Some (pixels t')))"
proof (cases "swizzled t")
  case True
  then show ?thesis using assms
    by (auto simp: TextureSpillToSram_def Let_def split_beta split: if_splits)
next
  case False
  then have "TextureSwizzle ops t 0 m = Some (ok, t', m')"
    using assms by (simp add: TextureSpillToSram_def)
  from TextureSwizzle_cases[OF this] False show ?thesis by auto
qed

lemma TexturePromoteToVram_cases:
  assumes "TexturePromoteToVram ops t True m = Some (ok, t', m')"
    and "fst (vramalloc ops (size_bytes t) m) \<noteq> 0"
  shows "ok \<and> \<not> swizzled t' \<and> data t' = fst (vramalloc ops (size_bytes t) m)
       \<and> size_bytes t' = size_bytes t \<and> textureWidth t' = textureWidth t \<and> bits t' = bits t
       \<and> (\<not> swizzled t \<longrightarrow> pixels t' = pixels t)
       \<and> (swizzled t \<longrightarrow>
             unswizzle_buffer (textureWidth t) (bits t) (size_bytes t) (pixels t)
                (fresh_block (size_bytes t)) = Some (pixels t'))"
proof (cases "swizzled t")
  case True
  then have "TextureUnswizzle ops t (fst (vramalloc ops (size_bytes t) m))
               (snd (vramalloc ops (size_bytes t) m)) = Some (ok, t', m')"
    using assms by (simp add: TexturePromoteToVram_def split_beta)
  from TextureUnswizzle_cases[OF this] True assms(2) show ?thesis by auto
next
  case False
  then show ?thesis using assms
    by (auto simp: TexturePromoteToVram_def split_beta split: if_splits)
qed


lemma remove1_last: "distinct xs \<Longrightarrow> xs \<noteq> [] \<Longrightarrow> remove1 (last xs) xs = butlast xs"
  by (induction xs) auto

lemma lru_inv_least: "lru_inv d xs \<Longrightarrow> least_recent_target d = (if xs = [] then 0 else last xs)"
  by (simp add: lru_inv_def)

lemma lru_inv_textures_mem [simp]:
  "lru_inv (d\<lparr>textures := h, mem := m\<rparr>) xs = lru_inv d xs"
  by (simp add: lru_inv_def)

lemma TextureSpillLRU_empty:
  assumes "lru_inv d []"
  shows "TextureSpillLRU ops sz d = Some (False, d)"
  using assms by (simp add: TextureSpillLRU_def lru_inv_def)

lemma TextureSpillLRU_step:
  fixes d :: "'m PSP_RenderData"
  assumes inv: "lru_inv d xs" and ne: "xs \<noteq> []"
    and r: "TextureSpillLRU ops sz d = Some (True, d')"
  shows "lru_inv d' (butlast xs)" and "unlinked d' (last xs)"
    and "\<forall>u. u \<noteq> last xs \<longrightarrow> textures d' u = textures d u"
    and "\<forall>u. u \<notin> set xs \<longrightarrow> prevhotw d' u = prevhotw d u \<and> nexthotw d' u = nexthotw d u"
    and "boundTarget d' = boundTarget d"
    and "TextureSpillToSram ops (textures d (last xs)) (mem d)
           = Some (True, textures d' (last xs), mem d')"
proof -
  have lz: "last xs \<noteq> 0" using lru_inv_nonzero[OF inv] ne last_in_set[of xs] by metis
  have least: "least_recent_target d = last xs" using lru_inv_least[OF inv] ne by simp
  obtain t' m' where sp: "TextureSpillToSram ops (textures d (last xs)) (mem d) = Some (True, t', m')"
    and d': "d' = LRUTargetRemove (d\<lparr>textures := (textures d)(last xs := t'), mem := m'\<rparr>) (last xs)"
    using r lz least
    by (auto simp: TextureSpillLRU_def Let_def split: option.splits if_splits)
  let ?d1 = "d\<lparr>textures := (textures d)(last xs := t'), mem := m'\<rparr>"
  have inv1: "lru_inv ?d1 xs" using inv by simp
  have mem: "last xs \<in> set xs" using ne by simp
  have dist: "distinct xs" using inv by (simp add: lru_inv_def)
  have "remove1 (last xs) xs = butlast xs"
    using dist ne by (rule remove1_last)
  with lru_remove(1)[OF inv1 mem] show "lru_inv d' (butlast xs)" by (simp add: d')
  show "unlinked d' (last xs)" using lru_remove(2)[OF inv1 mem] by (simp add: d')
  show "\<forall>u. u \<noteq> last xs \<longrightarrow> textures d' u = textures d u"
    by (simp add: d' LRUTargetRemove_frame)
  show "\<forall>u. u \<notin> set xs \<longrightarrow> prevhotw d' u = prevhotw d u \<and> nexthotw d' u = nexthotw d u"
    using lru_remove(3)[OF inv1 mem] by (simp add: d')
  show "boundTarget d' = boundTarget d" by (simp add: d' LRUTargetRemove_frame)
  show "TextureSpillToSram ops (textures d (last xs)) (mem d) = Some (True, textures d' (last xs), mem d')"
    using sp by (simp add: d' LRUTargetRemove_frame)
qed

lemma TextureSpillLRU_failed:
  fixes d :: "'m PSP_RenderData"
  assumes inv: "lru_inv d xs" and ne: "xs \<noteq> []"
    and r: "TextureSpillLRU ops sz d = Some (False, d')"
  shows "d' = d\<lparr>mem := snd (SDL_malloc ops (size_bytes (textures d (last xs))) (mem d))\<rparr>"
    and "fst (SDL_malloc ops (size_bytes (textures d (last xs))) (mem d)) = 0"
proof -
  have lz: "last xs \<noteq> 0" using lru_inv_nonzero[OF inv] ne last_in_set[of xs] by metis
  have least: "least_recent_target d = last xs" using lru_inv_least[OF inv] ne by simp
  obtain t' m' where sp: "TextureSpillToSram ops (textures d (last xs)) (mem d) = Some (False, t', m')"
    and d': "d' = d\<lparr>textures := (textures d)(last xs := t'), mem := m'\<rparr>"
    using r lz least
    by (auto simp: TextureSpillLRU_def Let_def split: option.splits if_splits)
  from TextureSpillToSram_cases[OF sp]
  have c: "t' = textures d (last xs)" "fst (SDL_malloc ops (size_bytes (textures d (last xs))) (mem d)) = 0"
    "m' = snd (SDL_malloc ops (size_bytes (textures d (last xs))) (mem d))" by auto
  show "d' = d\<lparr>mem := snd (SDL_malloc ops (size_bytes (textures d (last xs))) (mem d))\<rparr>"
    using c d' by simp
  show "fst (SDL_malloc ops (size_bytes (textures d (last xs))) (mem d)) = 0" by (rule c)
qed

lemma TextureSpillLRU_failed_contract:
  fixes d :: "'m PSP_RenderData"
  assumes inv: "lru_inv d xs" and ne: "xs \<noteq> []" and con: "mem_contract ops"
    and r: "TextureSpillLRU ops sz d = Some (False, d')"
  shows "d' = d"
proof -
  have "snd (SDL_malloc ops (size_bytes (textures d (last xs))) (mem d)) = mem d"
    using TextureSpillLRU_failed(2)[OF inv ne r] con by (simp add: mem_contract_def)
  then show ?thesis using TextureSpillLRU_failed(1)[OF inv ne r] by simp
qed

lemma spill_loop_unfold:
  "TextureSpillTargetsForSpace ops sz d =
     (if vlargestblock ops (mem d) < sz then
        (case TextureSpillLRU ops sz d of
           None \<Rightarrow> None
         | Some (ok, d1) \<Rightarrow> if \<not> ok then Some (False, d1) else TextureSpillTargetsForSpace ops sz d1)
      else Some (True, d))"
  by (subst TextureSpillTargetsForSpace.simps) (auto split: option.splits)

lemma spill_loop_spec:
  fixes d :: "'m PSP_RenderData"
  shows "lru_inv d xs \<Longrightarrow> TextureSpillTargetsForSpace ops sz d = Some (ok, d') \<Longrightarrow>
     \<exists>k\<le>length xs. lru_inv d' (take k xs)
        \<and> (ok \<longrightarrow> sz \<le> vlargestblock ops (mem d'))
        \<and> (\<forall>u. u \<notin> set (drop k xs) \<longrightarrow> textures d' u = textures d u)
        \<and> (\<forall>u\<in>set (drop k xs). unlinked d' u \<and> swizzled (textures d' u)
               \<and> (mem_contract ops \<longrightarrow> \<not> InVram (data (textures d' u))))
        \<and> (\<forall>u. u \<notin> set xs \<longrightarrow> prevhotw d' u = prevhotw d u \<and> nexthotw d' u = nexthotw d u)
        \<and> boundTarget d' = boundTarget d
        \<and> (mem_contract ops \<longrightarrow> spill_run ops sz d d'
              \<and> (\<not> ok \<longrightarrow> vlargestblock ops (mem d') < sz
                    \<and> (k = 0 \<or> fst (SDL_malloc ops (size_bytes (textures d' (last (take k xs)))) (mem d')) = 0)))"
proof (induction "length xs" arbitrary: xs d rule: less_induct)
  case less
  note inv = less.prems(1) and r = less.prems(2)
  show ?case
  proof (cases "vlargestblock ops (mem d) < sz")
    case False
    then have "ok" "d' = d" using r by (simp_all add: spill_loop_unfold)
    then show ?thesis using False inv
      by (intro exI[of _ "length xs"]) (simp add: spill_run.spill_done)
  next
    case True
    then obtain ok1 d1 where s1: "TextureSpillLRU ops sz d = Some (ok1, d1)"
      using r by (auto simp: spill_loop_unfold split: option.splits)
    show ?thesis
    proof (cases ok1)
      case False
      then have res: "ok = False" "d' = d1" using r True s1 by (simp_all add: spill_loop_unfold)
      have s1f: "TextureSpillLRU ops sz d = Some (False, d1)" using s1 False by simp
      have dd: "\<exists>m'. d1 = d\<lparr>mem := m'\<rparr>"
      proof (cases "xs = []")
        case True
        then have "d1 = d" using TextureSpillLRU_empty[of d ops sz] inv s1 by simp
        then have "d1 = d\<lparr>mem := mem d\<rparr>" by simp
        then show ?thesis by blast
      next
        case ne: False
        show ?thesis using TextureSpillLRU_failed(1)[OF inv ne s1f] by blast
      qed
      then obtain m' where d1: "d1 = d\<lparr>mem := m'\<rparr>" by blast
      have c: "mem_contract ops \<Longrightarrow> d1 = d"
      proof (cases "xs = []")
        case True
        then show ?thesis using TextureSpillLRU_empty[of d ops sz] inv s1 by simp
      next
        case ne: False
        assume "mem_contract ops"
        from TextureSpillLRU_failed_contract[OF inv ne this s1f] show ?thesis .
      qed
      have m: "length xs = 0 \<or> fst (SDL_malloc ops (size_bytes (textures d (last xs))) (mem d)) = 0"
      proof (cases "xs = []")
        case True
        then show ?thesis by simp
      next
        case ne: False
        show ?thesis using TextureSpillLRU_failed(2)[OF inv ne s1f] by simp
      qed
      have i1: "lru_inv d1 xs" using inv by (simp add: d1 lru_inv_def)
      have run: "spill_run ops sz d d" by (rule spill_run.spill_done)
      have "lru_inv d1 (take (length xs) xs)
        \<and> (False \<longrightarrow> sz \<le> vlargestblock ops (mem d1))
        \<and> (\<forall>u. u \<notin> set (drop (length xs) xs) \<longrightarrow> textures d1 u = textures d u)
        \<and> (\<forall>u\<in>set (drop (length xs) xs). unlinked d1 u \<and> swizzled (textures d1 u)
               \<and> (mem_contract ops \<longrightarrow> \<not> InVram (data (textures d1 u))))
        \<and> (\<forall>u. u \<notin> set xs \<longrightarrow> prevhotw d1 u = prevhotw d u \<and> nexthotw d1 u = nexthotw d u)
        \<and> boundTarget d1 = boundTarget d
        \<and> (mem_contract ops \<longrightarrow> spill_run ops sz d d1
              \<and> (\<not> False \<longrightarrow> vlargestblock ops (mem d1) < sz
                    \<and> (length xs = 0 \<or> fst (SDL_malloc ops (size_bytes (textures d1 (last (take (length xs) xs)))) (mem d1)) = 0)))"
      proof (cases "mem_contract ops")
        case True
        then have "d1 = d" by (rule c)
        then show ?thesis using inv run \<open>vlargestblock ops (mem d) < sz\<close> m by simp
      next
        case False
        then show ?thesis using i1 by (simp add: d1)
      qed
      then show ?thesis unfolding res using le_refl[of "length xs"] by blast
    next
      case ok1: True
      have ne: "xs \<noteq> []"
        using TextureSpillLRU_empty[of d ops sz] inv s1 ok1 by auto
      have s1': "TextureSpillLRU ops sz d = Some (True, d1)" using s1 ok1 by simp
      note st = TextureSpillLRU_step[OF inv ne s1']
      have r1: "TextureSpillTargetsForSpace ops sz d1 = Some (ok, d')"
        using r True s1 ok1 by (simp add: spill_loop_unfold)
      have len: "length (butlast xs) < length xs" using ne by simp
      from less.hyps[OF len st(1) r1]
      obtain k where k: "k \<le> length (butlast xs)"
        and inv': "lru_inv d' (take k (butlast xs))"
        and okk: "ok \<longrightarrow> sz \<le> vlargestblock ops (mem d')"
        and fr: "\<forall>u. u \<notin> set (drop k (butlast xs)) \<longrightarrow> textures d' u = textures d1 u"
        and ev: "\<forall>u\<in>set (drop k (butlast xs)). unlinked d' u \<and> swizzled (textures d' u)
               \<and> (mem_contract ops \<longrightarrow> \<not> InVram (data (textures d' u)))"
        and lk: "\<forall>u. u \<notin> set (butlast xs) \<longrightarrow> prevhotw d' u = prevhotw d1 u \<and> nexthotw d' u = nexthotw d1 u"
        and bt: "boundTarget d' = boundTarget d1"
        and cc: "mem_contract ops \<longrightarrow> spill_run ops sz d1 d'
              \<and> (\<not> ok \<longrightarrow> vlargestblock ops (mem d') < sz
                    \<and> (k = 0 \<or> fst (SDL_malloc ops (size_bytes (textures d' (last (take k (butlast xs))))) (mem d')) = 0))"
        by blast
      have dist: "distinct xs" using inv by (simp add: lru_inv_def)
      have xs: "xs = butlast xs @ [last xs]" using ne by simp
      have lnb: "last xs \<notin> set (butlast xs)"
        using dist xs by (metis distinct_append disjoint_iff list.set_intros(1))
      have tk: "take k xs = take k (butlast xs)"
        using k xs by (metis take_append diff_is_0_eq take_0 append.right_neutral)
      have dr: "drop k xs = drop k (butlast xs) @ [last xs]"
        using k xs by (metis drop_append diff_is_0_eq drop_0)
      have spv: "TextureSpillToSram ops (textures d (last xs)) (mem d)
           = Some (True, textures d1 (last xs), mem d1)" by (rule st(6))
      from TextureSpillToSram_cases[OF spv]
      have v: "swizzled (textures d1 (last xs))"
        "data (textures d1 (last xs)) = fst (SDL_malloc ops (size_bytes (textures d (last xs))) (mem d))"
        "data (textures d1 (last xs)) \<noteq> 0" by auto
      have nv: "mem_contract ops \<longrightarrow> \<not> InVram (data (textures d1 (last xs)))"
        using v by (auto simp: mem_contract_def)
      have last_same: "textures d' (last xs) = textures d1 (last xs)"
        using fr lnb by (meson in_set_dropD)
      have last_unl: "unlinked d' (last xs)"
        using lk lnb st(2) by (simp add: unlinked_def)
      have 1: "mem_contract ops \<longrightarrow> spill_run ops sz d d'"
        using cc spill_run.spill_step[OF True s1'] by blast
      have 2: "lru_inv d' (take k xs)" using inv' tk by simp
      have 3: "mem_contract ops \<longrightarrow> (\<not> ok \<longrightarrow> vlargestblock ops (mem d') < sz
                    \<and> (k = 0 \<or> fst (SDL_malloc ops (size_bytes (textures d' (last (take k xs)))) (mem d')) = 0))"
        using cc tk by simp
      have 4: "\<forall>u. u \<notin> set (drop k xs) \<longrightarrow> textures d' u = textures d u"
        using fr st(3) dr by auto
      have 5: "\<forall>u\<in>set (drop k xs). unlinked d' u \<and> swizzled (textures d' u)
               \<and> (mem_contract ops \<longrightarrow> \<not> InVram (data (textures d' u)))"
        using ev dr last_same last_unl v nv by auto
      have 6: "\<forall>u. u \<notin> set xs \<longrightarrow> prevhotw d' u = prevhotw d u \<and> nexthotw d' u = nexthotw d u"
        using lk st(4) by (metis in_set_butlastD)
      have 7: "boundTarget d' = boundTarget d" using bt st(5) by simp
      have 8: "k \<le> length xs" using k by simp
      show ?thesis using 1 2 3 4 5 6 7 8 okk by blast
    qed
  qed
qed


subsection \<open>The invariant along the eviction loop\<close>



lemma lru_bring_front_frame:
  fixes d :: "'m PSP_RenderData"
  assumes inv: "lru_inv d xs" and t: "t \<noteq> 0" "t \<in> set xs \<or> unlinked d t"
  shows "\<forall>u. u \<notin> set xs \<and> u \<noteq> t \<longrightarrow>
            prevhotw (LRUTargetBringFront d t) u = prevhotw d u
          \<and> nexthotw (LRUTargetBringFront d t) u = nexthotw d u"
    and "textures (LRUTargetBringFront d t) = textures d"
    and "mem (LRUTargetBringFront d t) = mem d"
    and "boundTarget (LRUTargetBringFront d t) = boundTarget d"
    and "most_recent_target (LRUTargetBringFront d t) = t"
proof -
  show "textures (LRUTargetBringFront d t) = textures d"
    by (simp add: LRUTargetBringFront_def LRUTargetPushFront_frame LRUTargetRemove_frame)
  show "mem (LRUTargetBringFront d t) = mem d"
    by (simp add: LRUTargetBringFront_def LRUTargetPushFront_frame LRUTargetRemove_frame)
  show "boundTarget (LRUTargetBringFront d t) = boundTarget d"
    by (simp add: LRUTargetBringFront_def LRUTargetPushFront_frame LRUTargetRemove_frame)
  show "most_recent_target (LRUTargetBringFront d t) = t"
    using lru_inv_most[OF lru_bring_front[OF inv t]] by simp
  show "\<forall>u. u \<notin> set xs \<and> u \<noteq> t \<longrightarrow>
            prevhotw (LRUTargetBringFront d t) u = prevhotw d u
          \<and> nexthotw (LRUTargetBringFront d t) u = nexthotw d u"
  proof (cases "most_recent_target d = t")
    case True
    then show ?thesis by (simp add: LRUTargetBringFront_def)
  next
    case False
    define d1 where "d1 = LRUTargetRemove d t"
    have bf: "LRUTargetBringFront d t = LRUTargetPushFront d1 t"
      using False by (simp add: LRUTargetBringFront_def d1_def)
    have i1: "lru_inv d1 (remove1 t xs)"
      and f1: "\<forall>u. u \<notin> set xs \<longrightarrow> prevhotw d1 u = prevhotw d u \<and> nexthotw d1 u = nexthotw d u"
    proof -
      show "lru_inv d1 (remove1 t xs)"
      proof (cases "t \<in> set xs")
        case True
        then show ?thesis unfolding d1_def using lru_remove(1)[OF inv] by blast
      next
        case False
        then have "unlinked d t" using t by blast
        from lru_remove_absent(1)[OF inv False t(1) this] False
        show ?thesis unfolding d1_def by (simp add: remove1_idem)
      qed
      show "\<forall>u. u \<notin> set xs \<longrightarrow> prevhotw d1 u = prevhotw d u \<and> nexthotw d1 u = nexthotw d u"
      proof (cases "t \<in> set xs")
        case True
        then show ?thesis unfolding d1_def using lru_remove(3)[OF inv] by blast
      next
        case False
        then have "unlinked d t" using t by blast
        from lru_remove_absent(3)[OF inv False t(1) this]
        show ?thesis unfolding d1_def by blast
      qed
    qed
    have m1: "most_recent_target d1 = 0 \<or> most_recent_target d1 \<in> set xs"
    proof (cases "remove1 t xs = []")
      case True
      then show ?thesis using lru_inv_most[OF i1] by simp
    next
      case False
      then have "hd (remove1 t xs) \<in> set xs"
        using hd_in_set[of "remove1 t xs"] set_remove1_subset[of t xs] by blast
      then show ?thesis using lru_inv_most[OF i1] False by simp
    qed
    show ?thesis
    proof (intro allI impI)
      fix u assume u: "u \<notin> set xs \<and> u \<noteq> t"
      have "prevhotw (LRUTargetPushFront d1 t) u = prevhotw d1 u"
        using m1 u by (auto simp: LRUTargetPushFront_at)
      moreover have "nexthotw (LRUTargetPushFront d1 t) u = nexthotw d1 u"
        using u by (simp add: LRUTargetPushFront_at)
      ultimately show "prevhotw (LRUTargetBringFront d t) u = prevhotw d u
          \<and> nexthotw (LRUTargetBringFront d t) u = nexthotw d u"
        using f1 u bf by simp
    qed
  qed
qed

lemma wf_internal_inj:
  "lru_wf d live xs \<Longrightarrow> tx \<in> set live \<Longrightarrow> tx2 \<in> set live \<Longrightarrow> internal tx = internal tx2
   \<Longrightarrow> tx = tx2"
  by (auto simp: lru_wf_def distinct_map dest: inj_onD)

lemma wf_in_list_target:
  assumes wf: "lru_wf d live xs" and tx: "tx \<in> set live" "internal tx \<in> set xs"
  shows "access tx = SDL_TEXTUREACCESS_TARGET"
proof -
  from wf tx(2) have "internal tx \<in> target_objects live" by (auto simp: lru_wf_def)
  then obtain tx2 where 2: "tx2 \<in> set live" "access tx2 = SDL_TEXTUREACCESS_TARGET"
      "internal tx = internal tx2"
    by (auto simp: target_objects_def)
  from wf_internal_inj[OF wf tx(1) 2(1) 2(3)] 2(2) show ?thesis by simp
qed

lemma spill_loop_wf:
  fixes d :: "'m PSP_RenderData"
  assumes wf: "lru_wf d live xs"
    and r: "TextureSpillTargetsForSpace ops sz d = Some (ok, d')"
  shows "\<exists>k\<le>length xs. lru_wf d' live (take k xs)
        \<and> (mem_contract ops \<longrightarrow> resident_iff d live xs \<longrightarrow> resident_iff d' live (take k xs))
        \<and> (\<forall>u. u \<notin> set (drop k xs) \<longrightarrow> textures d' u = textures d u)
        \<and> (\<forall>u. u \<notin> set xs \<longrightarrow> prevhotw d' u = prevhotw d u \<and> nexthotw d' u = nexthotw d u)
        \<and> (ok \<longrightarrow> sz \<le> vlargestblock ops (mem d'))
        \<and> boundTarget d' = boundTarget d"
proof -
  have inv: "lru_inv d xs" using wf by (simp add: lru_wf_def)
  from spill_loop_spec[OF inv r]
  obtain k where k: "k \<le> length xs"
    and inv': "lru_inv d' (take k xs)"
    and okk: "ok \<longrightarrow> sz \<le> vlargestblock ops (mem d')"
    and fr: "\<forall>u. u \<notin> set (drop k xs) \<longrightarrow> textures d' u = textures d u"
    and ev: "\<forall>u\<in>set (drop k xs). unlinked d' u \<and> swizzled (textures d' u)
               \<and> (mem_contract ops \<longrightarrow> \<not> InVram (data (textures d' u)))"
    and lk: "\<forall>u. u \<notin> set xs \<longrightarrow> prevhotw d' u = prevhotw d u \<and> nexthotw d' u = nexthotw d u"
    and bt: "boundTarget d' = boundTarget d"
    by blast
  have dist: "distinct xs" using inv by (simp add: lru_inv_def)
  have split: "set xs = set (take k xs) \<union> set (drop k xs)"
    by (metis append_take_drop_id set_append)
  have disj: "set (take k xs) \<inter> set (drop k xs) = {}"
    using dist by (metis append_take_drop_id distinct_append)
  have unl: "\<forall>tx\<in>set live. internal tx \<notin> set (take k xs) \<longrightarrow> unlinked d' (internal tx)"
  proof (intro ballI impI)
    fix tx assume tx: "tx \<in> set live" "internal tx \<notin> set (take k xs)"
    show "unlinked d' (internal tx)"
    proof (cases "internal tx \<in> set (drop k xs)")
      case True
      then show ?thesis using ev by blast
    next
      case False
      then have nx: "internal tx \<notin> set xs" using tx(2) split by blast
      then have "unlinked d (internal tx)" using wf tx(1) by (auto simp: lru_wf_def)
      then show ?thesis using lk nx by (simp add: unlinked_def)
    qed
  qed
  have str: "\<forall>tx\<in>set live. access tx = SDL_TEXTUREACCESS_STREAMING
            \<longrightarrow> \<not> swizzled (textures d' (internal tx))"
  proof (intro ballI impI)
    fix tx assume tx: "tx \<in> set live" "access tx = SDL_TEXTUREACCESS_STREAMING"
    have "internal tx \<notin> set xs" using wf_in_list_target[OF wf tx(1)] tx(2) by auto
    then have "textures d' (internal tx) = textures d (internal tx)"
      using fr split by blast
    then show "\<not> swizzled (textures d' (internal tx))"
      using wf tx by (auto simp: lru_wf_def)
  qed
  have wf': "lru_wf d' live (take k xs)"
    unfolding lru_wf_def
  proof (intro conjI)
    show "lru_inv d' (take k xs)" by (rule inv')
    show "distinct (map internal live)" using wf by (simp add: lru_wf_def)
    show "0 \<notin> internal ` set live" using wf by (simp add: lru_wf_def)
    show "set (take k xs) \<subseteq> target_objects live"
      using wf split by (auto simp: lru_wf_def)
    show "\<forall>tx\<in>set live. internal tx \<notin> set (take k xs) \<longrightarrow> unlinked d' (internal tx)"
      by (rule unl)
    show "\<forall>tx\<in>set live. access tx = SDL_TEXTUREACCESS_STREAMING
            \<longrightarrow> \<not> swizzled (textures d' (internal tx))" by (rule str)
  qed
  have res: "mem_contract ops \<longrightarrow> resident_iff d live xs \<longrightarrow> resident_iff d' live (take k xs)"
  proof (intro impI)
    assume con: "mem_contract ops" and ri: "resident_iff d live xs"
    show "resident_iff d' live (take k xs)"
      unfolding resident_iff_def
    proof (intro ballI)
      fix tx assume tx: "tx \<in> set live"
      have old: "(internal tx \<in> set xs) =
         (access tx = SDL_TEXTUREACCESS_TARGET \<and> InVram (data (textures d (internal tx))))"
        using ri tx by (simp add: resident_iff_def)
      show "(internal tx \<in> set (take k xs)) =
         (access tx = SDL_TEXTUREACCESS_TARGET \<and> InVram (data (textures d' (internal tx))))"
      proof (cases "internal tx \<in> set (drop k xs)")
        case True
        then have "\<not> InVram (data (textures d' (internal tx)))" using ev con by blast
        moreover have "internal tx \<notin> set (take k xs)" using True disj by blast
        ultimately show ?thesis by simp
      next
        case False
        then have "textures d' (internal tx) = textures d (internal tx)" using fr by blast
        moreover have "(internal tx \<in> set (take k xs)) = (internal tx \<in> set xs)"
          using False split by blast
        ultimately show ?thesis using old by simp
      qed
    qed
  qed
  show ?thesis using k wf' res fr lk okk bt by blast
qed

subsection \<open>Binding a target\<close>

lemma TexturePromoteToVram_general:
  assumes "TexturePromoteToVram ops t True m = Some (ok, t', m')"
  shows "(\<not> ok \<and> t' = t) \<or> (ok \<and> \<not> swizzled t' \<and> data t' \<noteq> 0)"
proof (cases "swizzled t")
  case True
  then have "TextureUnswizzle ops t (fst (vramalloc ops (size_bytes t) m))
               (snd (vramalloc ops (size_bytes t) m)) = Some (ok, t', m')"
    using assms by (simp add: TexturePromoteToVram_def split_beta)
  from TextureUnswizzle_cases[OF this] True show ?thesis by auto
next
  case False
  then show ?thesis using assms
    by (auto simp: TexturePromoteToVram_def split_beta split: if_splits)
qed

lemma lru_wf_update:
  fixes d :: "'m PSP_RenderData"
  assumes wf: "lru_wf d live xs"
    and s: "\<forall>tx\<in>set live. internal tx = t \<longrightarrow> access tx = SDL_TEXTUREACCESS_STREAMING
              \<longrightarrow> \<not> swizzled t'"
  shows "lru_wf (d\<lparr>textures := (textures d)(t := t'), mem := m'\<rparr>) live xs"
  using wf s by (auto simp: lru_wf_def unlinked_def)

lemma lru_wf_mem:
  fixes d :: "'m PSP_RenderData"
  assumes wf: "lru_wf d live xs"
  shows "lru_wf (d\<lparr>mem := m'\<rparr>) live xs"
  using wf by (auto simp: lru_wf_def unlinked_def lru_inv_def)

lemma resident_iff_mem:
  fixes d :: "'m PSP_RenderData"
  shows "resident_iff (d\<lparr>mem := m'\<rparr>) live xs = resident_iff d live xs"
  by (simp add: resident_iff_def)

lemma bring_front_wf:
  fixes d :: "'m PSP_RenderData"
  assumes wf: "lru_wf d live xs" and tx: "tx \<in> set live" "access tx = SDL_TEXTUREACCESS_TARGET"
  shows "lru_wf (LRUTargetBringFront d (internal tx)) live (internal tx # remove1 (internal tx) xs)"
    and "(\<forall>tx2\<in>set live. internal tx2 \<noteq> internal tx \<longrightarrow> (internal tx2 \<in> set xs) =
            (access tx2 = SDL_TEXTUREACCESS_TARGET \<and> InVram (data (textures d (internal tx2)))))
         \<Longrightarrow> InVram (data (textures d (internal tx)))
         \<Longrightarrow> resident_iff (LRUTargetBringFront d (internal tx)) live
               (internal tx # remove1 (internal tx) xs)"
proof -
  define t where "t = internal tx"
  define d' where "d' = LRUTargetBringFront d t"
  have inv: "lru_inv d xs" using wf by (simp add: lru_wf_def)
  have t0: "t \<noteq> 0" using wf tx(1) by (auto simp: lru_wf_def t_def)
  have tl: "t \<in> set xs \<or> unlinked d t" using wf tx(1) by (auto simp: lru_wf_def t_def)
  note fr = lru_bring_front_frame[OF inv t0 tl]
  have tex: "textures d' = textures d" using fr(2) by (simp add: d'_def)
  have "lru_wf d' live (t # remove1 t xs)"
    unfolding lru_wf_def
  proof (intro conjI)
    show "lru_inv d' (t # remove1 t xs)"
      unfolding d'_def by (rule lru_bring_front[OF inv t0 tl])
    show "distinct (map internal live)" using wf by (simp add: lru_wf_def)
    show "0 \<notin> internal ` set live" using wf by (simp add: lru_wf_def)
    have "t \<in> target_objects live" using tx by (auto simp: target_objects_def t_def)
    moreover have "set (remove1 t xs) \<subseteq> target_objects live"
      using wf set_remove1_subset[of t xs] by (auto simp: lru_wf_def)
    ultimately show "set (t # remove1 t xs) \<subseteq> target_objects live" by simp
    show "\<forall>tx\<in>set live. internal tx \<notin> set (t # remove1 t xs) \<longrightarrow> unlinked d' (internal tx)"
    proof (intro ballI impI)
      fix tx2 assume 2: "tx2 \<in> set live" "internal tx2 \<notin> set (t # remove1 t xs)"
      then have n: "internal tx2 \<noteq> t" "internal tx2 \<notin> set xs" by auto
      then have "unlinked d (internal tx2)" using wf 2(1) by (auto simp: lru_wf_def)
      then show "unlinked d' (internal tx2)"
        using fr(1) n by (simp add: unlinked_def d'_def)
    qed
    show "\<forall>tx\<in>set live. access tx = SDL_TEXTUREACCESS_STREAMING
            \<longrightarrow> \<not> swizzled (textures d' (internal tx))"
      using wf tex by (auto simp: lru_wf_def)
  qed
  then show "lru_wf (LRUTargetBringFront d (internal tx)) live (internal tx # remove1 (internal tx) xs)"
    by (simp add: d'_def t_def)
  assume o: "\<forall>tx2\<in>set live. internal tx2 \<noteq> internal tx \<longrightarrow> (internal tx2 \<in> set xs) =
            (access tx2 = SDL_TEXTUREACCESS_TARGET \<and> InVram (data (textures d (internal tx2))))"
    and v: "InVram (data (textures d (internal tx)))"
  have "resident_iff d' live (t # remove1 t xs)"
    unfolding resident_iff_def
  proof (intro ballI)
    fix tx2 assume 2: "tx2 \<in> set live"
    show "(internal tx2 \<in> set (t # remove1 t xs)) =
       (access tx2 = SDL_TEXTUREACCESS_TARGET \<and> InVram (data (textures d' (internal tx2))))"
    proof (cases "internal tx2 = t")
      case True
      then have "tx2 = tx" using wf_internal_inj[OF wf 2 tx(1)] by (simp add: t_def)
      then show ?thesis using True tx(2) v tex by (simp add: t_def)
    next
      case False
      then have "(internal tx2 \<in> set (t # remove1 t xs)) = (internal tx2 \<in> set xs)" by auto
      then show ?thesis using o 2 False tex by (simp add: t_def)
    qed
  qed
  then show "resident_iff (LRUTargetBringFront d (internal tx)) live
               (internal tx # remove1 (internal tx) xs)"
    by (simp add: d'_def t_def)
qed


lemma bind_wf:
  fixes d :: "'m PSP_RenderData"
  assumes wf: "lru_wf d live xs" and tx: "tx \<in> set live" "access tx = SDL_TEXTUREACCESS_TARGET"
    and r: "TextureBindAsTarget ops d (internal tx) = Some (ok, calls, d')"
  shows "\<exists>xs'. lru_wf d' live xs'
        \<and> (ok \<longrightarrow> most_recent_target d' = internal tx)
        \<and> (mem_contract ops \<longrightarrow> resident_iff d live xs \<longrightarrow>
              resident_iff d' live xs'
            \<and> (ok \<longrightarrow> InVram (data (textures d' (internal tx))))
            \<and> (\<not> ok \<longrightarrow> textures d' (internal tx) = textures d (internal tx)))"
proof -
  define t where "t = internal tx"
  have inv: "lru_inv d xs" using wf by (simp add: lru_wf_def)
  have t0: "t \<noteq> 0" using wf tx(1) by (auto simp: lru_wf_def t_def)
  have r': "TextureBindAsTarget ops d t = Some (ok, calls, d')" using r by (simp add: t_def)
  show ?thesis
  proof (cases "InVram (data (textures d t))")
    case True
    then have res: "ok" "d' = LRUTargetBringFront d t"
      using r' by (auto simp: TextureBindAsTarget_def Let_def)
    have tl: "t \<in> set xs \<or> unlinked d t" using wf tx(1) by (auto simp: lru_wf_def t_def)
    note fr = lru_bring_front_frame[OF inv t0 tl]
    have 1: "lru_wf d' live (t # remove1 t xs)"
      using bring_front_wf(1)[OF wf tx] by (simp add: res t_def)
    have 2: "most_recent_target d' = t" using fr(5) by (simp add: res)
    have 3: "resident_iff d live xs \<longrightarrow> resident_iff d' live (t # remove1 t xs)"
    proof
      assume "resident_iff d live xs"
      then have "\<forall>tx2\<in>set live. internal tx2 \<noteq> internal tx \<longrightarrow> (internal tx2 \<in> set xs) =
            (access tx2 = SDL_TEXTUREACCESS_TARGET \<and> InVram (data (textures d (internal tx2))))"
        by (simp add: resident_iff_def)
      from bring_front_wf(2)[OF wf tx this] True
      show "resident_iff d' live (t # remove1 t xs)" by (simp add: res t_def)
    qed
    have 4: "InVram (data (textures d' t))" using True fr(2) by (simp add: res)
    show ?thesis using 1 2 3 4 res(1) unfolding t_def by blast
  next
    case False
    then obtain ok1 d1 where
      l: "TextureSpillTargetsForSpace ops (size_bytes (textures d t)) d = Some (ok1, d1)"
      using r' by (auto simp: TextureBindAsTarget_def Let_def split: option.splits)
    from spill_loop_wf[OF wf l]
    obtain k where k: "k \<le> length xs"
      and wf1: "lru_wf d1 live (take k xs)"
      and ri1: "mem_contract ops \<longrightarrow> resident_iff d live xs \<longrightarrow> resident_iff d1 live (take k xs)"
      and fr1: "\<forall>u. u \<notin> set (drop k xs) \<longrightarrow> textures d1 u = textures d u"
      and sp1: "ok1 \<longrightarrow> size_bytes (textures d t) \<le> vlargestblock ops (mem d1)"
      by blast
    have tout: "resident_iff d live xs \<Longrightarrow> t \<notin> set xs"
      using False tx(1) by (auto simp: resident_iff_def t_def)
    have same: "resident_iff d live xs \<Longrightarrow> textures d1 t = textures d t"
      using tout fr1 by (meson in_set_dropD)
    show ?thesis
    proof (cases ok1)
      case False
      then have res: "\<not> ok" "d' = d1"
        using r' l \<open>\<not> InVram (data (textures d t))\<close>
        by (auto simp: TextureBindAsTarget_def Let_def)
      show ?thesis using wf1 ri1 same res unfolding t_def by blast
    next
      case True
      then obtain ok' t' m' where
        p: "TexturePromoteToVram ops (textures d1 t) True (mem d1) = Some (ok', t', m')"
        using r' l \<open>\<not> InVram (data (textures d t))\<close>
        by (auto simp: TextureBindAsTarget_def Let_def split: option.splits)
      define d2 where "d2 = d1\<lparr>textures := (textures d1)(t := t'), mem := m'\<rparr>"
      have wf2: "lru_wf d2 live (take k xs)"
        unfolding d2_def
      proof (rule lru_wf_update[OF wf1], intro ballI impI)
        fix tx2 assume 2: "tx2 \<in> set live" "internal tx2 = t"
          "access tx2 = SDL_TEXTUREACCESS_STREAMING"
        then have "tx2 = tx" using wf_internal_inj[OF wf 2(1) tx(1)] by (simp add: t_def)
        then show "\<not> swizzled t'" using 2(3) tx(2) by simp
      qed
      show ?thesis
      proof (cases ok')
        case False
        then have res: "\<not> ok" "d' = d2"
          using r' l p True \<open>\<not> InVram (data (textures d t))\<close>
          by (auto simp: TextureBindAsTarget_def Let_def d2_def)
        have same': "t' = textures d1 t"
          using TexturePromoteToVram_general[OF p] False by simp
        then have "textures d2 = textures d1" by (simp add: d2_def)
        then have "resident_iff d2 live (take k xs) = resident_iff d1 live (take k xs)"
          by (simp add: resident_iff_def)
        then show ?thesis using wf2 ri1 same res same' unfolding t_def
          by (metis \<open>textures d2 = textures d1\<close>)
      next
        case ok'': True
        have res: "ok" "d' = LRUTargetBringFront d2 t"
          using r' l p True ok'' \<open>\<not> InVram (data (textures d t))\<close>
          by (auto simp: TextureBindAsTarget_def Let_def d2_def)
        have inv2: "lru_inv d2 (take k xs)" using wf2 by (simp add: lru_wf_def)
        have tl2: "t \<in> set (take k xs) \<or> unlinked d2 t"
          using wf2 tx(1) by (auto simp: lru_wf_def t_def)
        note fr = lru_bring_front_frame[OF inv2 t0 tl2]
        have 1: "lru_wf d' live (t # remove1 t (take k xs))"
          using bring_front_wf(1)[OF wf2 tx] by (simp add: res t_def)
        have 2: "most_recent_target d' = t" using fr(5) by (simp add: res)
        have 3: "mem_contract ops \<longrightarrow> resident_iff d live xs \<longrightarrow>
                   resident_iff d' live (t # remove1 t (take k xs)) \<and> InVram (data (textures d' t))"
        proof (intro impI)
          assume con: "mem_contract ops" and ri: "resident_iff d live xs"
          have ri1': "resident_iff d1 live (take k xs)" using ri1 con ri by blast
          have sz: "size_bytes (textures d1 t) \<le> vlargestblock ops (mem d1)"
            using sp1 True same[OF ri] by simp
          then have nz: "fst (vramalloc ops (size_bytes (textures d1 t)) (mem d1)) \<noteq> 0"
            using con by (simp add: mem_contract_def)
          from TexturePromoteToVram_cases[OF p nz]
          have "data t' = fst (vramalloc ops (size_bytes (textures d1 t)) (mem d1))" by simp
          then have v: "InVram (data t')" using con by (simp add: mem_contract_def)
          have v2: "InVram (data (textures d2 (internal tx)))" using v by (simp add: d2_def t_def)
          have o: "\<forall>tx2\<in>set live. internal tx2 \<noteq> internal tx \<longrightarrow>
              (internal tx2 \<in> set (take k xs)) =
              (access tx2 = SDL_TEXTUREACCESS_TARGET \<and> InVram (data (textures d2 (internal tx2))))"
            using ri1' by (simp add: resident_iff_def d2_def t_def)
          from bring_front_wf(2)[OF wf2 tx o v2]
          have "resident_iff d' live (t # remove1 t (take k xs))" by (simp add: res t_def)
          moreover have "InVram (data (textures d' t))" using v fr(2) by (simp add: res d2_def)
          ultimately show "resident_iff d' live (t # remove1 t (take k xs))
               \<and> InVram (data (textures d' t))" by simp
        qed
        show ?thesis using 1 2 3 res(1) unfolding t_def by blast
      qed
    qed
  qed
qed

subsection \<open>Creating a texture\<close>

lemma lru_inv_fresh:
  fixes d :: "'m PSP_RenderData"
  assumes "lru_inv d xs" "p \<notin> set xs"
  shows "lru_inv (d\<lparr>textures := h, prevhotw := (prevhotw d)(p := a),
                    nexthotw := (nexthotw d)(p := b)\<rparr>) xs"
proof -
  have "dseg ((prevhotw d)(p := a)) ((nexthotw d)(p := b)) 0 (most_recent_target d) xs 0
        = dseg (prevhotw d) (nexthotw d) 0 (most_recent_target d) xs 0"
    using assms(2) by (intro dseg_cong) auto
  then show ?thesis using assms(1) by (simp add: lru_inv_def)
qed

lemma wf_list_live: "lru_wf d live xs \<Longrightarrow> set xs \<subseteq> internal ` set live"
  by (auto simp: lru_wf_def target_objects_def)

lemma new_texture_data_linear: "\<not> swizzled (new_texture_data tx)"
  by (simp add: new_texture_data_def Let_def)

lemma create_add_wf:
  fixes d :: "'m PSP_RenderData"
  assumes wf: "lru_wf d live xs" and p: "p \<noteq> 0" "p \<notin> internal ` set live"
    and s: "access tx = SDL_TEXTUREACCESS_STREAMING \<longrightarrow> \<not> swizzled t"
    and d3: "d3 = d\<lparr>textures := (textures d)(p := t), prevhotw := (prevhotw d)(p := 0),
                      nexthotw := (nexthotw d)(p := 0)\<rparr>"
  shows "lru_wf d3 (tx\<lparr>internal := p\<rparr> # live) xs"
    and "unlinked d3 p"
    and "access tx = SDL_TEXTUREACCESS_TARGET
         \<Longrightarrow> lru_wf (LRUTargetPushFront d3 p) (tx\<lparr>internal := p\<rparr> # live) (p # xs)"
proof -
  have inv: "lru_inv d xs" using wf by (simp add: lru_wf_def)
  have pn: "p \<notin> set xs" using wf_list_live[OF wf] p(2) by blast
  have inv3: "lru_inv d3 xs" unfolding d3 by (rule lru_inv_fresh[OF inv pn])
  show u3: "unlinked d3 p" by (simp add: d3 unlinked_def)
  have dm: "distinct (map internal (tx\<lparr>internal := p\<rparr> # live))"
    using wf p(2) by (auto simp: lru_wf_def)
  have z: "0 \<notin> internal ` set (tx\<lparr>internal := p\<rparr> # live)"
    using wf p(1) by (auto simp: lru_wf_def)
  have sub: "target_objects live \<subseteq> target_objects (tx\<lparr>internal := p\<rparr> # live)"
    by (auto simp: target_objects_def)
  have old_unl: "\<forall>tx2\<in>set live. internal tx2 \<notin> set xs \<longrightarrow> unlinked d3 (internal tx2)"
    using wf p(2) by (auto simp: lru_wf_def unlinked_def d3)
  have str: "\<forall>tx2\<in>set (tx\<lparr>internal := p\<rparr> # live). access tx2 = SDL_TEXTUREACCESS_STREAMING
            \<longrightarrow> \<not> swizzled (textures d3 (internal tx2))"
    using wf s p(2) by (auto simp: lru_wf_def d3)
  show wf3: "lru_wf d3 (tx\<lparr>internal := p\<rparr> # live) xs"
    unfolding lru_wf_def
  proof (intro conjI)
    show "lru_inv d3 xs" by (rule inv3)
    show "distinct (map internal (tx\<lparr>internal := p\<rparr> # live))" by (rule dm)
    show "0 \<notin> internal ` set (tx\<lparr>internal := p\<rparr> # live)" by (rule z)
    show "set xs \<subseteq> target_objects (tx\<lparr>internal := p\<rparr> # live)"
      using wf sub by (auto simp: lru_wf_def)
    show "\<forall>tx2\<in>set (tx\<lparr>internal := p\<rparr> # live). internal tx2 \<notin> set xs \<longrightarrow> unlinked d3 (internal tx2)"
      using old_unl u3 by simp
    show "\<forall>tx2\<in>set (tx\<lparr>internal := p\<rparr> # live). access tx2 = SDL_TEXTUREACCESS_STREAMING
            \<longrightarrow> \<not> swizzled (textures d3 (internal tx2))" by (rule str)
  qed
  assume tg: "access tx = SDL_TEXTUREACCESS_TARGET"
  have p3: "prevhotw d3 p = 0" by (simp add: d3)
  have m3: "most_recent_target d3 = 0 \<or> most_recent_target d3 \<in> set xs"
    using lru_inv_most[OF inv3] hd_in_set[of xs] by (cases "xs = []") auto
  show "lru_wf (LRUTargetPushFront d3 p) (tx\<lparr>internal := p\<rparr> # live) (p # xs)"
    unfolding lru_wf_def
  proof (intro conjI)
    show "lru_inv (LRUTargetPushFront d3 p) (p # xs)"
      by (rule lru_push_front[OF inv3 p(1) pn p3])
    show "distinct (map internal (tx\<lparr>internal := p\<rparr> # live))" by (rule dm)
    show "0 \<notin> internal ` set (tx\<lparr>internal := p\<rparr> # live)" by (rule z)
    have "p \<in> target_objects (tx\<lparr>internal := p\<rparr> # live)"
      using tg by (auto simp: target_objects_def intro!: image_eqI[of _ _ "tx\<lparr>internal := p\<rparr>"])
    then show "set (p # xs) \<subseteq> target_objects (tx\<lparr>internal := p\<rparr> # live)"
      using wf sub by (auto simp: lru_wf_def)
    show "\<forall>tx2\<in>set (tx\<lparr>internal := p\<rparr> # live). internal tx2 \<notin> set (p # xs)
            \<longrightarrow> unlinked (LRUTargetPushFront d3 p) (internal tx2)"
    proof (intro ballI impI)
      fix tx2 assume 2: "tx2 \<in> set (tx\<lparr>internal := p\<rparr> # live)" "internal tx2 \<notin> set (p # xs)"
      then have l: "tx2 \<in> set live" and n: "internal tx2 \<noteq> p" "internal tx2 \<notin> set xs" by auto
      have nz: "internal tx2 \<noteq> 0" using wf l by (auto simp: lru_wf_def)
      have "unlinked d3 (internal tx2)" using old_unl l n by blast
      moreover have "internal tx2 \<noteq> most_recent_target d3" using m3 n nz by auto
      ultimately show "unlinked (LRUTargetPushFront d3 p) (internal tx2)"
        using n by (simp add: unlinked_def LRUTargetPushFront_at)
    qed
    show "\<forall>tx2\<in>set (tx\<lparr>internal := p\<rparr> # live). access tx2 = SDL_TEXTUREACCESS_STREAMING
            \<longrightarrow> \<not> swizzled (textures (LRUTargetPushFront d3 p) (internal tx2))"
      using str by (simp add: LRUTargetPushFront_frame)
  qed
qed

lemma create_add_resident:
  fixes d :: "'m PSP_RenderData"
  assumes wf: "lru_wf d live xs" and p: "p \<notin> internal ` set live"
    and ri: "resident_iff d live xs"
    and d3: "textures d3 = (textures d)(p := t)"
  shows "access tx \<noteq> SDL_TEXTUREACCESS_TARGET \<or> \<not> InVram (data t)
         \<Longrightarrow> resident_iff d3 (tx\<lparr>internal := p\<rparr> # live) xs"
    and "access tx = SDL_TEXTUREACCESS_TARGET \<Longrightarrow> InVram (data t)
         \<Longrightarrow> textures d4 = textures d3
         \<Longrightarrow> resident_iff d4 (tx\<lparr>internal := p\<rparr> # live) (p # xs)"
proof -
  have pn: "p \<notin> set xs" using wf_list_live[OF wf] p by blast
  have old: "\<forall>tx2\<in>set live. (internal tx2 \<in> set xs) =
      (access tx2 = SDL_TEXTUREACCESS_TARGET \<and> InVram (data (textures d3 (internal tx2))))"
    using ri p by (auto simp: resident_iff_def d3)
  show "access tx \<noteq> SDL_TEXTUREACCESS_TARGET \<or> \<not> InVram (data t)
         \<Longrightarrow> resident_iff d3 (tx\<lparr>internal := p\<rparr> # live) xs"
    using old pn by (auto simp: resident_iff_def d3)
  assume "access tx = SDL_TEXTUREACCESS_TARGET" "InVram (data t)" "textures d4 = textures d3"
  then show "resident_iff d4 (tx\<lparr>internal := p\<rparr> # live) (p # xs)"
    using old pn p by (auto simp: resident_iff_def d3)
qed

lemma create_wf:
  fixes d :: "'m PSP_RenderData"
  assumes wf: "lru_wf d live xs" and p: "p \<notin> internal ` set live"
    and r: "PSP_CreateTexture ops d tx p = Some (ok, d', tx')"
  shows "\<exists>xs'. lru_wf d' (if ok then tx' # live else live) xs'
        \<and> (mem_contract ops \<longrightarrow> resident_iff d live xs \<longrightarrow>
              resident_iff d' (if ok then tx' # live else live) xs')"
proof (cases "p = 0")
  case True
  then have "\<not> ok" "d' = d" using r by (auto simp: PSP_CreateTexture_def)
  then show ?thesis using wf by auto
next
  case p0: False
  define t where "t = new_texture_data tx"
  show ?thesis
  proof (cases "access tx = SDL_TEXTUREACCESS_TARGET")
    case tg: True
    then obtain ok1 d1 where
      l: "TextureSpillTargetsForSpace ops (size_bytes t) d = Some (ok1, d1)"
      using r p0 by (auto simp: PSP_CreateTexture_def Let_def t_def split: option.splits)
    from spill_loop_wf[OF wf l]
    obtain k where wf1: "lru_wf d1 live (take k xs)"
      and ri1: "mem_contract ops \<longrightarrow> resident_iff d live xs \<longrightarrow> resident_iff d1 live (take k xs)"
      by blast
    show ?thesis
    proof (cases ok1)
      case False
      then have "\<not> ok" "d' = d1" using r p0 tg l
        by (auto simp: PSP_CreateTexture_def Let_def t_def)
      then show ?thesis using wf1 ri1 by auto
    next
      case ok1: True
      define nd where "nd = fst (vramalloc ops (size_bytes t) (mem d1))"
      define d2 where "d2 = d1\<lparr>mem := snd (vramalloc ops (size_bytes t) (mem d1))\<rparr>"
      have wf2: "lru_wf d2 live (take k xs)" unfolding d2_def by (rule lru_wf_mem[OF wf1])
      have ri2: "mem_contract ops \<longrightarrow> resident_iff d live xs \<longrightarrow> resident_iff d2 live (take k xs)"
        using ri1 by (simp add: d2_def resident_iff_mem)
      show ?thesis
      proof (cases "nd = 0")
        case True
        then have "\<not> ok" "d' = d2" using r p0 tg l ok1
          by (auto simp: PSP_CreateTexture_def Let_def t_def nd_def d2_def split_beta)
        then show ?thesis using wf2 ri2 by auto
      next
        case False
        define tn where "tn = t\<lparr>data := nd, pixels := fresh_block (size_bytes t)\<rparr>"
        define d3 where "d3 = d2\<lparr>textures := (textures d2)(p := tn),
               prevhotw := (prevhotw d2)(p := 0), nexthotw := (nexthotw d2)(p := 0)\<rparr>"
        have res: "ok" "d' = LRUTargetPushFront d3 p" "tx' = tx\<lparr>internal := p\<rparr>"
          using r p0 tg l ok1 False
          by (auto simp: PSP_CreateTexture_def Let_def t_def nd_def d2_def d3_def tn_def split_beta)
        have s: "access tx = SDL_TEXTUREACCESS_STREAMING \<longrightarrow> \<not> swizzled tn" using tg by simp
        have 1: "lru_wf d' (tx' # live) (p # take k xs)"
          using create_add_wf(3)[OF wf2 p0 p s d3_def tg] by (simp add: res)
        have 2: "mem_contract ops \<longrightarrow> resident_iff d live xs \<longrightarrow>
                   resident_iff d' (tx' # live) (p # take k xs)"
        proof (intro impI)
          assume con: "mem_contract ops" and ri: "resident_iff d live xs"
          have ri2': "resident_iff d2 live (take k xs)" using ri2 con ri by blast
          have v: "InVram (data tn)" using con by (simp add: tn_def nd_def mem_contract_def)
          have t3: "textures d3 = (textures d2)(p := tn)" by (simp add: d3_def)
          have t4: "textures d' = textures d3" by (simp add: res LRUTargetPushFront_frame)
          from create_add_resident(2)[OF wf2 p ri2' t3 tg v t4]
          show "resident_iff d' (tx' # live) (p # take k xs)" by (simp add: res)
        qed
        show ?thesis using 1 2 res(1) by auto
      qed
    qed
  next
    case ntg: False
    define nd where "nd = fst (SDL_malloc ops (size_bytes t) (mem d))"
    define d2 where "d2 = d\<lparr>mem := snd (SDL_malloc ops (size_bytes t) (mem d))\<rparr>"
    have wf2: "lru_wf d2 live xs" unfolding d2_def by (rule lru_wf_mem[OF wf])
    have ri2: "resident_iff d live xs \<longrightarrow> resident_iff d2 live xs"
      by (simp add: d2_def resident_iff_mem)
    show ?thesis
    proof (cases "nd = 0")
      case True
      then have "\<not> ok" "d' = d2" using r p0 ntg
        by (auto simp: PSP_CreateTexture_def Let_def t_def nd_def d2_def split_beta)
      then show ?thesis using wf2 ri2 by auto
    next
      case False
      define tn where "tn = t\<lparr>data := nd, pixels := replicate (size_bytes t div 4) (Some 0)\<rparr>"
      define d3 where "d3 = d2\<lparr>textures := (textures d2)(p := tn),
               prevhotw := (prevhotw d2)(p := 0), nexthotw := (nexthotw d2)(p := 0)\<rparr>"
      have res: "ok" "d' = d3" "tx' = tx\<lparr>internal := p\<rparr>"
        using r p0 ntg False
        by (auto simp: PSP_CreateTexture_def Let_def t_def nd_def d2_def d3_def tn_def split_beta)
      have s: "access tx = SDL_TEXTUREACCESS_STREAMING \<longrightarrow> \<not> swizzled tn"
        by (simp add: tn_def t_def new_texture_data_linear)
      have 1: "lru_wf d' (tx' # live) xs"
        using create_add_wf(1)[OF wf2 p0 p s d3_def] by (simp add: res)
      have 2: "resident_iff d live xs \<longrightarrow> resident_iff d' (tx' # live) xs"
      proof
        assume "resident_iff d live xs"
        then have ri2': "resident_iff d2 live xs" using ri2 by blast
        have t3: "textures d3 = (textures d2)(p := tn)" by (simp add: d3_def)
        from create_add_resident(1)[OF wf2 p ri2' t3, of tx] ntg
        show "resident_iff d' (tx' # live) xs" by (simp add: res)
      qed
      show ?thesis using 1 2 res(1) by auto
    qed
  qed
qed

subsection \<open>Sampling, writing and destroying\<close>

lemma activate_wf:
  fixes d :: "'m PSP_RenderData"
  assumes wf: "lru_wf d live xs" and tx: "tx \<in> set live"
    and r: "TextureActivate ops d tx = Some (calls, d')"
  shows "lru_wf d' live xs"
    and "mem_contract ops \<Longrightarrow> resident_iff d live xs \<Longrightarrow> resident_iff d' live xs"
    and "access tx = SDL_TEXTUREACCESS_STREAMING
         \<Longrightarrow> textures d' (internal tx) = textures d (internal tx)"
proof -
  define p where "p = internal tx"
  define t where "t = textures d p"
  have cases: "d' = d \<and> \<not> TextureShouldSwizzle t tx
     \<or> (TextureShouldSwizzle t tx \<and>
        (\<exists>ok t' m'. TextureSwizzle ops t 0 (mem d) = Some (ok, t', m')
            \<and> d' = d\<lparr>textures := (textures d)(p := t'), mem := m'\<rparr>))"
    using r by (auto simp: TextureActivate_def Let_def p_def t_def split: option.splits if_splits)
  have only: "\<And>tx2. tx2 \<in> set live \<Longrightarrow> internal tx2 = p \<Longrightarrow> tx2 = tx"
    using wf_internal_inj[OF wf _ tx] by (simp add: p_def)
  show "lru_wf d' live xs"
  proof (cases "TextureShouldSwizzle t tx")
    case False
    then show ?thesis using cases wf by auto
  next
    case True
    then obtain ok t' m' where sw: "TextureSwizzle ops t 0 (mem d) = Some (ok, t', m')"
      and d': "d' = d\<lparr>textures := (textures d)(p := t'), mem := m'\<rparr>"
      using cases by auto
    have ns: "access tx \<noteq> SDL_TEXTUREACCESS_STREAMING"
      using True by (simp add: TextureShouldSwizzle_def)
    show ?thesis unfolding d'
    proof (rule lru_wf_update[OF wf], intro ballI impI)
      fix tx2 assume "tx2 \<in> set live" "internal tx2 = p" "access tx2 = SDL_TEXTUREACCESS_STREAMING"
      then show "\<not> swizzled t'" using only ns by blast
    qed
  qed
  show "textures d' (internal tx) = textures d (internal tx)"
    if "access tx = SDL_TEXTUREACCESS_STREAMING"
  proof -
    have "\<not> TextureShouldSwizzle t tx" using that by (simp add: TextureShouldSwizzle_def)
    then show ?thesis using cases by auto
  qed
  show "resident_iff d' live xs" if con: "mem_contract ops" and ri: "resident_iff d live xs"
  proof (cases "TextureShouldSwizzle t tx")
    case False
    then show ?thesis using cases ri by auto
  next
    case True
    then obtain ok t' m' where sw: "TextureSwizzle ops t 0 (mem d) = Some (ok, t', m')"
      and d': "d' = d\<lparr>textures := (textures d)(p := t'), mem := m'\<rparr>"
      using cases by auto
    have nv: "\<not> (access tx = SDL_TEXTUREACCESS_TARGET \<and> InVram (data t))"
      using True by (simp add: TextureShouldSwizzle_def)
    have nv': "access tx = SDL_TEXTUREACCESS_TARGET \<Longrightarrow> \<not> InVram (data t')"
      using TextureSwizzle_cases[OF sw] nv con by (auto simp: mem_contract_def)
    show ?thesis
      unfolding resident_iff_def
    proof (intro ballI)
      fix tx2 assume 2: "tx2 \<in> set live"
      show "(internal tx2 \<in> set xs) =
        (access tx2 = SDL_TEXTUREACCESS_TARGET \<and> InVram (data (textures d' (internal tx2))))"
      proof (cases "internal tx2 = p")
        case True
        then have e: "tx2 = tx" using only 2 by blast
        have "(internal tx \<in> set xs) =
           (access tx = SDL_TEXTUREACCESS_TARGET \<and> InVram (data t))"
          using ri tx by (simp add: resident_iff_def t_def p_def)
        then show ?thesis using nv nv' e by (auto simp: d' p_def)
      next
        case False
        then show ?thesis using ri 2 by (simp add: resident_iff_def d')
      qed
    qed
  qed
qed

lemma write_wf:
  fixes d :: "'m PSP_RenderData"
  assumes wf: "lru_wf d live xs"
    and d': "d' = d\<lparr>textures := (textures d)(p := (textures d p)\<lparr>pixels := px\<rparr>)\<rparr>"
  shows "lru_wf d' live xs"
    and "resident_iff d live xs \<Longrightarrow> resident_iff d' live xs"
proof -
  show "lru_wf d' live xs"
    using wf by (auto simp: lru_wf_def unlinked_def lru_inv_def d')
  show "resident_iff d live xs \<Longrightarrow> resident_iff d' live xs"
    by (auto simp: resident_iff_def d')
qed

lemma distinct_map_remove1: "distinct (map f xs) \<Longrightarrow> distinct (map f (remove1 x xs))"
proof (induction xs)
  case Nil
  then show ?case by simp
next
  case (Cons a xs)
  have "f ` set (remove1 x xs) \<subseteq> f ` set xs" using set_remove1_subset[of x xs] by blast
  then show ?case using Cons by auto
qed

lemma destroy_wf:
  fixes d :: "'m PSP_RenderData"
  assumes wf: "lru_wf d live xs" and tx: "tx \<in> set live"
    and r: "PSP_DestroyTexture ops d tx = (d', tx')"
  shows "lru_wf d' (remove1 tx live) (remove1 (internal tx) xs)"
    and "resident_iff d live xs
         \<Longrightarrow> resident_iff d' (remove1 tx live) (remove1 (internal tx) xs)"
proof -
  define p where "p = internal tx"
  define d1 where "d1 = LRUTargetRemove d p"
  have inv: "lru_inv d xs" using wf by (simp add: lru_wf_def)
  have p0: "p \<noteq> 0" using wf tx by (auto simp: lru_wf_def p_def)
  have d': "d' = d1\<lparr>mem := TextureStorageFree ops (data (textures d1 p)) (mem d1)\<rparr>"
    using r p0 by (simp add: PSP_DestroyTexture_def Let_def p_def d1_def)
  have dl: "distinct live" using wf by (auto simp: lru_wf_def distinct_map)
  have rest: "set (remove1 tx live) = set live - {tx}" using dl by simp
  have other: "\<And>tx2. tx2 \<in> set (remove1 tx live) \<Longrightarrow> tx2 \<in> set live \<and> internal tx2 \<noteq> p"
    using rest wf_internal_inj[OF wf _ tx] by (auto simp: p_def)
  have tex: "textures d' = textures d" by (simp add: d' d1_def LRUTargetRemove_frame)
  have i1: "lru_inv d1 (remove1 p xs)"
    and f1: "\<forall>u. u \<notin> set xs \<longrightarrow> prevhotw d1 u = prevhotw d u \<and> nexthotw d1 u = nexthotw d u"
  proof -
    have tl: "p \<in> set xs \<or> unlinked d p" using wf tx by (auto simp: lru_wf_def p_def)
    show "lru_inv d1 (remove1 p xs)"
    proof (cases "p \<in> set xs")
      case True
      then show ?thesis unfolding d1_def using lru_remove(1)[OF inv] by blast
    next
      case False
      then have "unlinked d p" using tl by blast
      from lru_remove_absent(1)[OF inv False p0 this] False
      show ?thesis unfolding d1_def by (simp add: remove1_idem)
    qed
    show "\<forall>u. u \<notin> set xs \<longrightarrow> prevhotw d1 u = prevhotw d u \<and> nexthotw d1 u = nexthotw d u"
    proof (cases "p \<in> set xs")
      case True
      then show ?thesis unfolding d1_def using lru_remove(3)[OF inv] by blast
    next
      case False
      then have "unlinked d p" using tl by blast
      from lru_remove_absent(3)[OF inv False p0 this]
      show ?thesis unfolding d1_def by blast
    qed
  qed
  have dx: "distinct xs" using inv by (simp add: lru_inv_def)
  have sx: "set (remove1 p xs) = set xs - {p}" using dx by simp
  have "lru_wf d' (remove1 tx live) (remove1 p xs)"
    unfolding lru_wf_def
  proof (intro conjI)
    show "lru_inv d' (remove1 p xs)" using i1 by (simp add: d' lru_inv_def)
    show "distinct (map internal (remove1 tx live))"
      using wf by (auto simp: lru_wf_def intro: distinct_map_remove1)
    show "0 \<notin> internal ` set (remove1 tx live)"
      using wf rest by (auto simp: lru_wf_def)
    show "set (remove1 p xs) \<subseteq> target_objects (remove1 tx live)"
    proof
      fix u assume "u \<in> set (remove1 p xs)"
      then have u: "u \<in> set xs" "u \<noteq> p" using sx by auto
      then obtain tx2 where 2: "tx2 \<in> set live" "access tx2 = SDL_TEXTUREACCESS_TARGET"
        "u = internal tx2"
        using wf by (auto simp: lru_wf_def target_objects_def)
      then have "tx2 \<noteq> tx" using u(2) by (auto simp: p_def)
      then show "u \<in> target_objects (remove1 tx live)"
        using 2 rest by (auto simp: target_objects_def)
    qed
    show "\<forall>tx2\<in>set (remove1 tx live). internal tx2 \<notin> set (remove1 p xs)
            \<longrightarrow> unlinked d' (internal tx2)"
    proof (intro ballI impI)
      fix tx2 assume 2: "tx2 \<in> set (remove1 tx live)" "internal tx2 \<notin> set (remove1 p xs)"
      then have l: "tx2 \<in> set live" "internal tx2 \<noteq> p" using other by auto
      then have n: "internal tx2 \<notin> set xs" using 2(2) sx by auto
      then have "unlinked d (internal tx2)" using wf l(1) by (auto simp: lru_wf_def)
      then show "unlinked d' (internal tx2)" using f1 n by (simp add: unlinked_def d')
    qed
    show "\<forall>tx2\<in>set (remove1 tx live). access tx2 = SDL_TEXTUREACCESS_STREAMING
            \<longrightarrow> \<not> swizzled (textures d' (internal tx2))"
      using wf other tex by (auto simp: lru_wf_def)
  qed
  then show "lru_wf d' (remove1 tx live) (remove1 (internal tx) xs)" by (simp add: p_def)
  assume ri: "resident_iff d live xs"
  have "resident_iff d' (remove1 tx live) (remove1 p xs)"
    unfolding resident_iff_def
  proof (intro ballI)
    fix tx2 assume 2: "tx2 \<in> set (remove1 tx live)"
    then have l: "tx2 \<in> set live" "internal tx2 \<noteq> p" using other by auto
    then have "(internal tx2 \<in> set (remove1 p xs)) = (internal tx2 \<in> set xs)" using sx by auto
    then show "(internal tx2 \<in> set (remove1 p xs)) =
       (access tx2 = SDL_TEXTUREACCESS_TARGET \<and> InVram (data (textures d' (internal tx2))))"
      using ri l(1) tex by (simp add: resident_iff_def)
  qed
  then show "resident_iff d' (remove1 tx live) (remove1 (internal tx) xs)" by (simp add: p_def)
qed

subsection \<open>The invariant in the reachable states\<close>

lemma reachable_wf:
  fixes d :: "'m PSP_RenderData"
  assumes "reachable ops d live"
  shows "\<exists>xs. lru_wf d live xs \<and> (mem_contract ops \<longrightarrow> resident_iff d live xs)"
  using assms
proof (induction rule: reachable.induct)
  case (r_init d)
  then have "lru_wf d [] []" by (simp add: lru_wf_def lru_inv_def target_objects_def)
  moreover have "resident_iff d [] []" by (simp add: resident_iff_def)
  ultimately show ?case by blast
next
  case (r_create d live p tx d' tx')
  then obtain xs where wf: "lru_wf d live xs"
    and ri: "mem_contract ops \<longrightarrow> resident_iff d live xs" by blast
  from create_wf[OF wf r_create.hyps(3,4)] ri show ?case by auto
next
  case (r_create_failed d live p tx d' tx')
  then obtain xs where wf: "lru_wf d live xs"
    and ri: "mem_contract ops \<longrightarrow> resident_iff d live xs" by blast
  from create_wf[OF wf r_create_failed.hyps(2,3)] ri show ?case by auto
next
  case (r_bind d live tx ok calls d')
  then obtain xs where wf: "lru_wf d live xs"
    and ri: "mem_contract ops \<longrightarrow> resident_iff d live xs" by blast
  from bind_wf[OF wf r_bind.hyps(2,3,4)] ri show ?case by blast
next
  case (r_activate d live tx calls d')
  then obtain xs where wf: "lru_wf d live xs"
    and ri: "mem_contract ops \<longrightarrow> resident_iff d live xs" by blast
  from activate_wf(1,2)[OF wf r_activate.hyps(2,3)] ri show ?case by blast
next
  case (r_write d live tx px)
  then obtain xs where wf: "lru_wf d live xs"
    and ri: "mem_contract ops \<longrightarrow> resident_iff d live xs" by blast
  from write_wf[OF wf refl, of "internal tx" px] ri show ?case by blast
next
  case (r_destroy d live tx d' tx')
  then obtain xs where wf: "lru_wf d live xs"
    and ri: "mem_contract ops \<longrightarrow> resident_iff d live xs" by blast
  from destroy_wf[OF wf r_destroy.hyps(2,3)] ri show ?case by blast
qed

subsection \<open>The example allocator and the example states\<close>

lemma toy_vram_address:
  fixes x :: int
  shows "InVram (0x04000000 + x mod 0x200000)" and "0x04000000 + x mod 0x200000 \<noteq> 0"
  using pos_mod_bound[of "0x200000" x] pos_mod_sign[of "0x200000" x]
  by (simp_all add: InVram_def)

lemma toy_sram_address:
  fixes x :: int
  shows "\<not> InVram (0x08800000 + x mod 0x1000000)"
  using pos_mod_sign[of "0x1000000" x] by (simp add: InVram_def)

lemma toy_contract: "mem_contract toy_ops"
  unfolding mem_contract_def
proof (intro allI conjI impI)
  fix m :: toy_mem and n :: nat
  show "InVram (fst (vramalloc toy_ops n m))"
    using toy_vram_address(1)[of "vram_next m"]
    by (simp add: toy_ops_def toy_vramalloc_def Let_def InVram_def)
  show "fst (vramalloc toy_ops n m) \<noteq> 0" if "n \<le> vlargestblock toy_ops m"
    using that toy_vram_address(2)[of "vram_next m"]
    by (simp add: toy_ops_def toy_vramalloc_def Let_def)
  show "snd (vramalloc toy_ops n m) = m" if "fst (vramalloc toy_ops n m) = 0"
    using that toy_vram_address(2)[of "vram_next m"]
    by (simp add: toy_ops_def toy_vramalloc_def Let_def split: if_splits)
  show "\<not> InVram (fst (SDL_malloc toy_ops n m))" if "fst (SDL_malloc toy_ops n m) \<noteq> 0"
    using that toy_sram_address[of "sram_next m"]
    by (simp add: toy_ops_def toy_malloc_def split: if_splits)
  show "snd (SDL_malloc toy_ops n m) = m" if "fst (SDL_malloc toy_ops n m) = 0"
    using that toy_sram_address[of "sram_next m"]
    by (auto simp: toy_ops_def toy_malloc_def InVram_def split: if_splits)
qed


lemma created_eq:
  assumes "\<not> Option.is_none (PSP_CreateTexture toy_ops d tx p)"
    and "fst (the (PSP_CreateTexture toy_ops d tx p))"
  shows "PSP_CreateTexture toy_ops d tx p = Some (True, created d tx p, tx\<lparr>internal := p\<rparr>)"
proof -
  obtain ok d' tx' where r: "PSP_CreateTexture toy_ops d tx p = Some (ok, d', tx')"
    using assms(1) by (cases "PSP_CreateTexture toy_ops d tx p") auto
  then have ok: "ok" using assms(2) by simp
  have "tx' = tx\<lparr>internal := p\<rparr>"
    using r ok
    by (auto simp: PSP_CreateTexture_def Let_def split_beta split: if_splits option.splits)
  then show ?thesis using r ok by (simp add: created_def)
qed

lemma bound_eq:
  assumes "\<not> Option.is_none (TextureBindAsTarget toy_ops d p)"
  shows "TextureBindAsTarget toy_ops d p
         = Some (fst (bound d p), fst (snd (bound d p)), snd (snd (bound d p)))"
  using assms by (cases "TextureBindAsTarget toy_ops d p") (auto simp: bound_def)

lemma reachable_two_targets_if:
  assumes "\<not> Option.is_none (PSP_CreateTexture toy_ops (psp_init m) small_target 16)"
    and "fst (the (PSP_CreateTexture toy_ops (psp_init m) small_target 16))"
    and "\<not> Option.is_none
           (PSP_CreateTexture toy_ops (created (psp_init m) small_target 16) small_target 32)"
    and "fst (the (PSP_CreateTexture toy_ops (created (psp_init m) small_target 16) small_target 32))"
  shows "reachable toy_ops (two_targets m) [second_target, first_target]"
proof -
  let ?d1 = "created (psp_init m) small_target 16"
  have 0: "reachable toy_ops (psp_init m) []"
    by (rule r_init) (simp_all add: psp_init_def)
  from created_eq[OF assms(1,2)]
  have c1: "PSP_CreateTexture toy_ops (psp_init m) small_target 16 = Some (True, ?d1, first_target)"
    by (simp add: first_target_def)
  have 1: "reachable toy_ops ?d1 [first_target]"
    by (rule r_create[OF 0 _ _ c1]) simp_all
  from created_eq[OF assms(3,4)]
  have c2: "PSP_CreateTexture toy_ops ?d1 small_target 32
     = Some (True, two_targets m, second_target)"
    by (simp add: second_target_def two_targets_def)
  show ?thesis
    by (rule r_create[OF 1 _ _ c2]) (simp_all add: first_target_def small_target_def)
qed


lemma reachable_two_targets_full:
  "reachable toy_ops (two_targets (toy_mem_init 256 256)) [second_target, first_target]"
  by (rule reachable_two_targets_if) code_simp+

subsection \<open>Residency in the reachable states\<close>




subsection \<open>Streaming textures\<close>

lemma reachable_one_streaming:
  "reachable toy_ops (one_streaming (toy_mem_init 256 1024)) [small_streaming\<lparr>internal := 16\<rparr>]"
proof -
  let ?m = "toy_mem_init 256 1024"
  have 0: "reachable toy_ops (psp_init ?m) []"
    by (rule r_init) (simp_all add: psp_init_def)
  have "\<not> Option.is_none (PSP_CreateTexture toy_ops (psp_init ?m) small_streaming 16)"
    "fst (the (PSP_CreateTexture toy_ops (psp_init ?m) small_streaming 16))"
    by code_simp+
  from created_eq[OF this]
  have c1: "PSP_CreateTexture toy_ops (psp_init ?m) small_streaming 16
     = Some (True, one_streaming ?m, small_streaming\<lparr>internal := 16\<rparr>)"
    by (simp add: one_streaming_def)
  show ?thesis by (rule r_create[OF 0 _ _ c1]) simp_all
qed

text \<open>
  Claim C10.  In every reachable state a streaming texture alive is not swizzled and
  \<^verbatim>\<open>TextureShouldSwizzle\<close> is false for it; \<^verbatim>\<open>TextureActivate\<close> on it returns,
  leaves the renderer as it is and hands the texture to the GU as not swizzled; and
  the pointer \<^verbatim>\<open>PSP_LockTexture\<close> returns is the address of the block plus the
  row-major offset of the first pixel of the rectangle.
\<close>

theorem streaming_never_swizzled:
  fixes d :: "'m PSP_RenderData"
  assumes re: "reachable ops d live"
    and tx: "tx \<in> set live" "access tx = SDL_TEXTUREACCESS_STREAMING"
  shows "\<not> TextureShouldSwizzle (textures d (internal tx)) tx
       \<and> \<not> swizzled (textures d (internal tx))
       \<and> TextureActivate ops d tx =
           Some ([sceGuTexMode (format (textures d (internal tx))) False,
                  sceGuTexImage (textureWidth (textures d (internal tx)))
                    (textureHeight (textures d (internal tx)))
                    (textureWidth (textures d (internal tx))) (data (textures d (internal tx)))],
                 d)
       \<and> fst (snd (snd (PSP_LockTexture (textures d (internal tx)) tx rect)))
           = data (textures d (internal tx)) + rect_y rect * int (pitch (textures d (internal tx)))
               + rect_x rect * int (SDL_BYTESPERPIXEL (tex_format tx))"
proof -
  from reachable_wf[OF re] obtain xs where wf: "lru_wf d live xs" by blast
  have 1: "\<not> TextureShouldSwizzle (textures d (internal tx)) tx"
    using tx(2) by (simp add: TextureShouldSwizzle_def)
  have 2: "\<not> swizzled (textures d (internal tx))"
    using wf tx by (auto simp: lru_wf_def)
  have 3: "TextureActivate ops d tx =
           Some ([sceGuTexMode (format (textures d (internal tx))) False,
                  sceGuTexImage (textureWidth (textures d (internal tx)))
                    (textureHeight (textures d (internal tx)))
                    (textureWidth (textures d (internal tx))) (data (textures d (internal tx)))],
                 d)"
    using 1 2 by (simp add: TextureActivate_def Let_def)
  have 4: "fst (snd (snd (PSP_LockTexture (textures d (internal tx)) tx rect)))
           = data (textures d (internal tx)) + rect_y rect * int (pitch (textures d (internal tx)))
               + rect_x rect * int (SDL_BYTESPERPIXEL (tex_format tx))"
    by (simp add: PSP_LockTexture_def)
  show ?thesis using 1 2 3 4 by blast
qed

theorem streaming_never_swizzled_witness:
  "reachable toy_ops (one_streaming (toy_mem_init 256 1024)) [small_streaming\<lparr>internal := 16\<rparr>]
   \<and> access (small_streaming\<lparr>internal := 16\<rparr>) = SDL_TEXTUREACCESS_STREAMING
   \<and> 16 \<le> tex_w small_streaming
   \<and> \<not> TextureShouldSwizzle (textures (one_streaming (toy_mem_init 256 1024)) 16)
         (small_streaming\<lparr>internal := 16\<rparr>)
   \<and> \<not> swizzled (textures (one_streaming (toy_mem_init 256 1024)) 16)"
  using streaming_never_swizzled[where tx = "small_streaming\<lparr>internal := 16\<rparr>"
      and ops = toy_ops and rect = zero_rect, OF reachable_one_streaming]
    reachable_one_streaming
  by (simp add: small_streaming_def)

subsection \<open>Eviction and promotion of one texture\<close>

lemma TexturePromoteToVram_layout:
  assumes "TexturePromoteToVram ops t True m = Some (True, t', m')"
  shows "\<not> swizzled t' \<and>
         (if swizzled t
          then unswizzle_buffer (textureWidth t) (bits t) (size_bytes t) (pixels t)
                 (fresh_block (size_bytes t)) = Some (pixels t')
          else pixels t' = pixels t \<and> data t' = fst (vramalloc ops (size_bytes t) m))"
proof (cases "swizzled t")
  case True
  then have "TextureUnswizzle ops t (fst (vramalloc ops (size_bytes t) m))
               (snd (vramalloc ops (size_bytes t) m)) = Some (True, t', m')"
    using assms by (simp add: TexturePromoteToVram_def split_beta)
  from TextureUnswizzle_cases[OF this] True show ?thesis by auto
next
  case False
  then show ?thesis using assms
    by (auto simp: TexturePromoteToVram_def split_beta split: if_splits)
qed

lemma spilled_eq:
  "\<not> Option.is_none (TextureSpillToSram toy_ops t m)
   \<Longrightarrow> TextureSpillToSram toy_ops t m
       = Some (fst (spilled t m), fst (snd (spilled t m)), snd (snd (spilled t m)))"
  by (cases "TextureSpillToSram toy_ops t m") (auto simp: spilled_def)

lemma promoted_eq:
  "\<not> Option.is_none (TexturePromoteToVram toy_ops t True m)
   \<Longrightarrow> TexturePromoteToVram toy_ops t True m
       = Some (fst (promoted t m), fst (snd (promoted t m)), snd (snd (promoted t m)))"
  by (cases "TexturePromoteToVram toy_ops t True m") (auto simp: promoted_def)

subsection \<open>The eviction loop\<close>


lemma spill_lru_eq:
  "\<not> Option.is_none (TextureSpillLRU toy_ops sz d)
   \<Longrightarrow> TextureSpillLRU toy_ops sz d = Some (fst (spill_lru sz d), snd (spill_lru sz d))"
  by (cases "TextureSpillLRU toy_ops sz d") (auto simp: spill_lru_def)









subsection \<open>An eviction that fails\<close>

lemma spill_loop_failed:
  fixes d :: "'m PSP_RenderData"
  assumes con: "mem_contract ops"
  shows "lru_inv d xs \<Longrightarrow> TextureSpillTargetsForSpace ops sz d = Some (False, d') \<Longrightarrow>
     TextureSpillLRU ops sz d' = Some (False, d')"
proof (induction "length xs" arbitrary: xs d rule: less_induct)
  case less
  note inv = less.prems(1) and r = less.prems(2)
  have big: "vlargestblock ops (mem d) < sz"
    using r by (auto simp: spill_loop_unfold split: if_splits)
  then obtain ok1 d1 where s1: "TextureSpillLRU ops sz d = Some (ok1, d1)"
    using r by (auto simp: spill_loop_unfold split: option.splits)
  show ?case
  proof (cases ok1)
    case False
    then have d': "d' = d1" using r big s1 by (simp add: spill_loop_unfold)
    have s1f: "TextureSpillLRU ops sz d = Some (False, d1)" using s1 False by simp
    have "d1 = d"
    proof (cases "xs = []")
      case True
      then show ?thesis using TextureSpillLRU_empty[of d ops sz] inv s1 by simp
    next
      case ne: False
      from TextureSpillLRU_failed_contract[OF inv ne con s1f] show ?thesis .
    qed
    then show ?thesis using s1f d' by simp
  next
    case True
    have ne: "xs \<noteq> []" using TextureSpillLRU_empty[of d ops sz] inv s1 True by auto
    have s1': "TextureSpillLRU ops sz d = Some (True, d1)" using s1 True by simp
    have r1: "TextureSpillTargetsForSpace ops sz d1 = Some (False, d')"
      using r big s1 True by (simp add: spill_loop_unfold)
    have len: "length (butlast xs) < length xs" using ne by simp
    from less.hyps[OF len TextureSpillLRU_step(1)[OF inv ne s1'] r1] show ?thesis .
  qed
qed

lemma bind_failed:
  fixes d :: "'m PSP_RenderData"
  assumes con: "mem_contract ops" and wf: "lru_wf d live xs" and ri: "resident_iff d live xs"
    and tx: "tx \<in> set live" "access tx = SDL_TEXTUREACCESS_TARGET"
    and r: "TextureBindAsTarget ops d (internal tx) = Some (False, calls, d')"
  shows "TextureSpillTargetsForSpace ops (size_bytes (textures d (internal tx))) d = Some (False, d')"
proof -
  define t where "t = internal tx"
  have inv: "lru_inv d xs" using wf by (simp add: lru_wf_def)
  have r': "TextureBindAsTarget ops d t = Some (False, calls, d')" using r by (simp add: t_def)
  have nv: "\<not> InVram (data (textures d t))"
    using r' by (auto simp: TextureBindAsTarget_def Let_def split: if_splits)
  then obtain ok1 d1 where
    l: "TextureSpillTargetsForSpace ops (size_bytes (textures d t)) d = Some (ok1, d1)"
    using r' by (auto simp: TextureBindAsTarget_def Let_def split: option.splits)
  have "\<not> ok1"
  proof
    assume ok1: ok1
    from spill_loop_spec[OF inv l] ok1
    obtain k where sz: "size_bytes (textures d t) \<le> vlargestblock ops (mem d1)"
      and fr: "\<forall>u. u \<notin> set (drop k xs) \<longrightarrow> textures d1 u = textures d u"
      by blast
    have "t \<notin> set xs" using ri nv tx(1) by (auto simp: resident_iff_def t_def)
    then have same: "textures d1 t = textures d t" using fr by (meson in_set_dropD)
    then have nz: "fst (vramalloc ops (size_bytes (textures d1 t)) (mem d1)) \<noteq> 0"
      using sz con by (simp add: mem_contract_def)
    obtain ok' t' m' where
      p: "TexturePromoteToVram ops (textures d1 t) True (mem d1) = Some (ok', t', m')"
      using r' l nv ok1
      by (auto simp: TextureBindAsTarget_def Let_def split: option.splits)
    from TexturePromoteToVram_cases[OF p nz] have "ok'" by simp
    then show False using r' l nv ok1 p
      by (auto simp: TextureBindAsTarget_def Let_def)
  qed
  then have "d' = d1" using r' l nv by (auto simp: TextureBindAsTarget_def Let_def)
  then show ?thesis using l \<open>\<not> ok1\<close> by (simp add: t_def)
qed

lemma create_failed:
  fixes d :: "'m PSP_RenderData"
  assumes con: "mem_contract ops" and inv: "lru_inv d xs"
    and tx: "access tx = SDL_TEXTUREACCESS_TARGET" "p \<noteq> 0"
    and r: "PSP_CreateTexture ops d tx p = Some (False, d', tx')"
  shows "TextureSpillTargetsForSpace ops (size_bytes (new_texture_data tx)) d = Some (False, d')"
proof -
  define t where "t = new_texture_data tx"
  obtain ok1 d1 where
    l: "TextureSpillTargetsForSpace ops (size_bytes t) d = Some (ok1, d1)"
    using r tx by (auto simp: PSP_CreateTexture_def Let_def t_def split: option.splits)
  have "\<not> ok1"
  proof
    assume ok1: ok1
    from spill_loop_spec[OF inv l] ok1
    have "size_bytes t \<le> vlargestblock ops (mem d1)" by blast
    then have "fst (vramalloc ops (size_bytes t) (mem d1)) \<noteq> 0"
      using con by (simp add: mem_contract_def)
    then show False using r tx l ok1
      by (auto simp: PSP_CreateTexture_def Let_def t_def split_beta)
  qed
  then have "d' = d1" using r tx l
    by (auto simp: PSP_CreateTexture_def Let_def t_def)
  then show ?thesis using l \<open>\<not> ok1\<close> by (simp add: t_def)
qed

text \<open>
  Claim C4.  The allocators keep their contract and the state is reachable.  A
  \<^verbatim>\<open>TextureSpillLRU\<close> that fails returns the state it was called in: the list, the
  victim and its block are as before.  A \<^verbatim>\<open>TextureBindAsTarget\<close> that fails leaves
  the object of the texture it was asked for as it was, block and tier included, and
  the state it returns is the one in which the failing eviction was called, reached
  by evictions that succeeded.  The same holds for the creation of a target that
  fails.
\<close>

theorem failed_eviction_changes_nothing:
  fixes d :: "'m PSP_RenderData"
  assumes con: "mem_contract ops" and re: "reachable ops d live"
  shows "(\<forall>sz d'. TextureSpillLRU ops sz d = Some (False, d') \<longrightarrow> d' = d)
    \<and> (\<forall>tx\<in>set live. access tx = SDL_TEXTUREACCESS_TARGET \<longrightarrow>
         (\<forall>calls d'. TextureBindAsTarget ops d (internal tx) = Some (False, calls, d') \<longrightarrow>
             textures d' (internal tx) = textures d (internal tx)
           \<and> spill_run ops (size_bytes (textures d (internal tx))) d d'
           \<and> TextureSpillLRU ops (size_bytes (textures d (internal tx))) d' = Some (False, d')))
    \<and> (\<forall>tx p d' tx'. access tx = SDL_TEXTUREACCESS_TARGET \<and> p \<noteq> 0
           \<and> PSP_CreateTexture ops d tx p = Some (False, d', tx') \<longrightarrow>
             spill_run ops (size_bytes (new_texture_data tx)) d d'
           \<and> TextureSpillLRU ops (size_bytes (new_texture_data tx)) d' = Some (False, d'))"
proof -
  from reachable_wf[OF re] con
  obtain xs where wf: "lru_wf d live xs" and ri: "resident_iff d live xs" by blast
  have inv: "lru_inv d xs" using wf by (simp add: lru_wf_def)
  have 1: "\<forall>sz d'. TextureSpillLRU ops sz d = Some (False, d') \<longrightarrow> d' = d"
  proof (intro allI impI)
    fix sz d' assume s: "TextureSpillLRU ops sz d = Some (False, d')"
    show "d' = d"
    proof (cases "xs = []")
      case True
      then show ?thesis using TextureSpillLRU_empty[of d ops sz] inv s by simp
    next
      case False
      from TextureSpillLRU_failed_contract[OF inv False con s] show ?thesis .
    qed
  qed
  have run: "\<And>sz d'. TextureSpillTargetsForSpace ops sz d = Some (False, d')
       \<Longrightarrow> spill_run ops sz d d' \<and> TextureSpillLRU ops sz d' = Some (False, d')"
    using spill_loop_spec[OF inv] spill_loop_failed[OF con inv] con by blast
  have 2: "\<forall>tx\<in>set live. access tx = SDL_TEXTUREACCESS_TARGET \<longrightarrow>
         (\<forall>calls d'. TextureBindAsTarget ops d (internal tx) = Some (False, calls, d') \<longrightarrow>
             textures d' (internal tx) = textures d (internal tx)
           \<and> spill_run ops (size_bytes (textures d (internal tx))) d d'
           \<and> TextureSpillLRU ops (size_bytes (textures d (internal tx))) d' = Some (False, d'))"
  proof (intro ballI impI allI)
    fix tx calls d'
    assume tx: "tx \<in> set live" "access tx = SDL_TEXTUREACCESS_TARGET"
      and b: "TextureBindAsTarget ops d (internal tx) = Some (False, calls, d')"
    have "textures d' (internal tx) = textures d (internal tx)"
      using bind_wf[OF wf tx b] con ri by blast
    then show "textures d' (internal tx) = textures d (internal tx)
           \<and> spill_run ops (size_bytes (textures d (internal tx))) d d'
           \<and> TextureSpillLRU ops (size_bytes (textures d (internal tx))) d' = Some (False, d')"
      using run[OF bind_failed[OF con wf ri tx b]] by simp
  qed
  have 3: "\<forall>tx p d' tx'. access tx = SDL_TEXTUREACCESS_TARGET \<and> p \<noteq> 0
           \<and> PSP_CreateTexture ops d tx p = Some (False, d', tx') \<longrightarrow>
             spill_run ops (size_bytes (new_texture_data tx)) d d'
           \<and> TextureSpillLRU ops (size_bytes (new_texture_data tx)) d' = Some (False, d')"
    using run create_failed[OF con inv] by blast
  show ?thesis using 1 2 3 by blast
qed

theorem failed_eviction_changes_nothing_witness:
  "mem_contract toy_ops
   \<and> reachable toy_ops (two_targets (toy_mem_init 256 256)) [second_target, first_target]
   \<and> lru_inv (two_targets (toy_mem_init 256 256)) [32]
   \<and> \<not> fst (spill_lru 256 (two_targets (toy_mem_init 256 256)))
   \<and> snd (spill_lru 256 (two_targets (toy_mem_init 256 256))) = two_targets (toy_mem_init 256 256)
   \<and> \<not> fst (bound (two_targets (toy_mem_init 256 256)) 16)
   \<and> textures (snd (snd (bound (two_targets (toy_mem_init 256 256)) 16))) 16
       = textures (two_targets (toy_mem_init 256 256)) 16"
proof -
  let ?d = "two_targets (toy_mem_init 256 256)"
  have e: "\<not> Option.is_none (TextureSpillLRU toy_ops 256 ?d)" "\<not> fst (spill_lru 256 ?d)"
    "\<not> Option.is_none (TextureBindAsTarget toy_ops ?d 16)" "\<not> fst (bound ?d 16)"
    "lru_inv ?d [32]"
    by code_simp+
  have s: "TextureSpillLRU toy_ops 256 ?d = Some (False, snd (spill_lru 256 ?d))"
    using spill_lru_eq[OF e(1)] e(2) by simp
  have b: "TextureBindAsTarget toy_ops ?d (internal first_target)
      = Some (False, fst (snd (bound ?d 16)), snd (snd (bound ?d 16)))"
    using bound_eq[OF e(3)] e(4) by (simp add: first_target_def)
  have m: "first_target \<in> set [second_target, first_target]"
    "access first_target = SDL_TEXTUREACCESS_TARGET" "internal first_target = 16"
    by (simp_all add: first_target_def small_target_def)
  note th = failed_eviction_changes_nothing[OF toy_contract reachable_two_targets_full]
  from th s have 1: "snd (spill_lru 256 ?d) = ?d" by blast
  from th b m have 2: "textures (snd (snd (bound ?d 16))) 16 = textures ?d 16" by metis
  show ?thesis using toy_contract reachable_two_targets_full e 1 2 by blast
qed

section \<open>The layout codec\<close>

subsection \<open>The loops as lists of copies\<close>

lemma run_copies_append:
  "run_copies (as @ bs) src dst =
     (case run_copies as src dst of None \<Rightarrow> None | Some d \<Rightarrow> run_copies bs src d)"
  by (induction as arbitrary: dst) (auto split: option.splits)

lemma swizzle_blocks_copies:
  "swizzle_blocks n src si dst bi =
     map_option (\<lambda>d. (d, si + 4 * n))
       (run_copies (map (\<lambda>i. (si + 4 * i, bi + 32 * int i)) [0..<n]) src dst)"
proof (induction n arbitrary: si dst bi)
  case 0
  then show ?case by simp
next
  case (Suc n)
  have m: "map (\<lambda>i. (si + 4 * i, bi + 32 * int i)) [0..<Suc n]
      = (si, bi) # map (\<lambda>i. (si + 4 + 4 * i, bi + 32 + 32 * int i)) [0..<n]"
    by (subst map_upt_Suc) (simp add: algebra_simps)
  show ?case
    unfolding m by (simp add: Suc.IH add.assoc split: option.splits)
qed

lemma swizzle_rows_copies:
  assumes rba: "rba = (rb - 1) * 128"
  shows "swizzle_rows n j rb rba src si dst (blockaddress_at rb j) =
     run_copies
       (concat (map (\<lambda>j'. map (\<lambda>i. (si + j' * (4 * nat rb) + 4 * i,
                                  blockaddress_at rb (j + int j') div 4 + 32 * int i))
                           [0..<nat rb]) [0..<n])) src dst"
proof (induction n arbitrary: j si dst)
  case 0
  then show ?case by simp
next
  case (Suc n)
  have nx: "(if j mod 8 = 7 then blockaddress_at rb j + rba else blockaddress_at rb j) + 16
      = blockaddress_at rb (j + 1)"
  proof (cases "j mod 8 = 7")
    case True
    then have "(j + 1) div 8 = j div 8 + 1" "(j + 1) mod 8 = 0" by presburger+
    then show ?thesis using True by (simp add: blockaddress_at_def rba algebra_simps)
  next
    case False
    then have "(j + 1) div 8 = j div 8" "(j + 1) mod 8 = j mod 8 + 1" by presburger+
    then show ?thesis using False by (simp add: blockaddress_at_def algebra_simps)
  qed
  let ?row = "\<lambda>si j j'. map (\<lambda>i. (si + j' * (4 * nat rb) + 4 * i,
                                  blockaddress_at rb (j + int j') div 4 + 32 * int i)) [0..<nat rb]"
  have m: "concat (map (?row si j) [0..<Suc n])
      = map (\<lambda>i. (si + 4 * i, blockaddress_at rb j div 4 + 32 * int i)) [0..<nat rb]
        @ concat (map (?row (si + 4 * nat rb) (j + 1)) [0..<n])"
    by (subst map_upt_Suc) (simp add: algebra_simps)
  have step: "swizzle_rows (Suc n) j rb rba src si dst (blockaddress_at rb j) =
      (case swizzle_blocks (nat rb) src si dst (blockaddress_at rb j div 4) of
         None \<Rightarrow> None
       | Some (dst', si') \<Rightarrow>
           swizzle_rows n (j + 1) rb rba src si' dst' (blockaddress_at rb (j + 1)))"
    by (simp only: swizzle_rows.simps nx)
  show ?case
    unfolding m run_copies_append step
    by (simp add: swizzle_blocks_copies Suc.IH split: option.splits)
qed

lemma unswizzle_block_copies:
  "unswizzle_block n src si dst bi dp =
     map_option (\<lambda>d. (d, si + 4 * n))
       (run_copies (map (\<lambda>r. (si + 4 * r, bi + int r * (4 + dp))) [0..<n]) src dst)"
proof (induction n arbitrary: si dst bi)
  case 0
  then show ?case by simp
next
  case (Suc n)
  have m: "map (\<lambda>r. (si + 4 * r, bi + int r * (4 + dp))) [0..<Suc n]
      = (si, bi) # map (\<lambda>r. (si + 4 + 4 * r, bi + 4 + dp + int r * (4 + dp))) [0..<n]"
    by (subst map_upt_Suc) (simp add: algebra_simps)
  show ?case
    unfolding m by (simp add: Suc.IH add.assoc split: option.splits)
qed

lemma unswizzle_blockrow_copies:
  "unswizzle_blockrow n src si dst xdst dp =
     map_option (\<lambda>d. (d, si + 32 * n))
       (run_copies
          (concat (map (\<lambda>x. map (\<lambda>r. (si + 32 * x + 4 * r,
                                      (xdst + 16 * int x) div 4 + int r * (4 + dp))) [0..<8])
                       [0..<n])) src dst)"
proof (induction n arbitrary: si dst xdst)
  case 0
  then show ?case by simp
next
  case (Suc n)
  let ?blk = "\<lambda>si xdst x. map (\<lambda>r. (si + 32 * x + 4 * r,
                                      (xdst + 16 * int x) div 4 + int r * (4 + dp))) [0..<8]"
  have m: "concat (map (?blk si xdst) [0..<Suc n])
      = map (\<lambda>r. (si + 4 * r, xdst div 4 + int r * (4 + dp))) [0..<8]
        @ concat (map (?blk (si + 32) (xdst + 16)) [0..<n])"
    by (subst map_upt_Suc) (simp add: algebra_simps)
  have step: "unswizzle_blockrow (Suc n) src si dst xdst dp =
      (case unswizzle_block 8 src si dst (xdst div 4) dp of
         None \<Rightarrow> None
       | Some (dst', si') \<Rightarrow> unswizzle_blockrow n src si' dst' (xdst + 16) dp)"
    by (simp only: unswizzle_blockrow.simps)
  show ?case
    unfolding m run_copies_append step unswizzle_block_copies
    by (simp add: Suc.IH add.assoc split: option.splits)
qed

lemma unswizzle_rows_copies:
  "unswizzle_rows n wb src si dst ydst dp drow =
     run_copies
       (concat (map (\<lambda>y. concat (map (\<lambda>x. map (\<lambda>r. (si + y * (32 * wb) + 32 * x + 4 * r,
                         (ydst + int y * drow + 16 * int x) div 4 + int r * (4 + dp))) [0..<8])
                       [0..<wb])) [0..<n])) src dst"
proof (induction n arbitrary: si dst ydst)
  case 0
  then show ?case by simp
next
  case (Suc n)
  let ?row = "\<lambda>si ydst y. concat (map (\<lambda>x. map (\<lambda>r. (si + y * (32 * wb) + 32 * x + 4 * r,
                         (ydst + int y * drow + 16 * int x) div 4 + int r * (4 + dp))) [0..<8])
                       [0..<wb])"
  have m: "concat (map (?row si ydst) [0..<Suc n])
      = concat (map (\<lambda>x. map (\<lambda>r. (si + 32 * x + 4 * r,
                                      (ydst + 16 * int x) div 4 + int r * (4 + dp))) [0..<8])
                       [0..<wb])
        @ concat (map (?row (si + 32 * wb) (ydst + drow)) [0..<n])"
    by (subst map_upt_Suc) (simp add: algebra_simps)
  have step: "unswizzle_rows (Suc n) wb src si dst ydst dp drow =
      (case unswizzle_blockrow wb src si dst ydst dp of
         None \<Rightarrow> None
       | Some (dst', si') \<Rightarrow> unswizzle_rows n wb src si' dst' (ydst + drow) dp drow)"
    by (simp only: unswizzle_rows.simps)
  show ?case
    unfolding m run_copies_append step unswizzle_blockrow_copies
    by (simp add: Suc.IH split: option.splits)
qed

subsection \<open>What a list of copies computes\<close>

lemma copy4_Some:
  assumes "copy4 src s dst b = Some d"
  shows "length d = length dst"
    and "\<And>k. k < 4 \<Longrightarrow> d ! (nat b + k) = src ! (s + k)"
    and "\<And>x. \<not> (nat b \<le> x \<and> x < nat b + 4) \<Longrightarrow> d ! x = dst ! x"
proof -
  have b: "0 \<le> b" "nat b + 4 \<le> length dst" "s + 4 \<le> length src"
    and d: "d = dst[nat b := src ! s, nat b + 1 := src ! (s + 1),
                     nat b + 2 := src ! (s + 2), nat b + 3 := src ! (s + 3)]"
    using assms by (auto simp: copy4_def split: if_splits)
  show "length d = length dst" by (simp add: d)
  show "d ! (nat b + k) = src ! (s + k)" if "k < 4" for k
  proof -
    from that consider "k = 0" | "k = 1" | "k = 2" | "k = 3" by linarith
    then show ?thesis using b by cases (simp_all add: d nth_list_update)
  qed
  show "d ! x = dst ! x" if "\<not> (nat b \<le> x \<and> x < nat b + 4)" for x
  proof -
    have "x \<noteq> nat b" "x \<noteq> nat b + 1" "x \<noteq> nat b + 2" "x \<noteq> nat b + 3"
      using that by linarith+
    then show ?thesis unfolding d by (simp only: nth_list_update_neq not_sym)
  qed
qed

lemma copy4_defined:
  "0 \<le> b \<Longrightarrow> nat b + 4 \<le> length dst \<Longrightarrow> s + 4 \<le> length src
   \<Longrightarrow> \<exists>d. copy4 src s dst b = Some d"
  by (simp add: copy4_def)

lemma chunks_meet:
  fixes b b' :: int
  assumes "0 \<le> b" "0 \<le> b'" "4 dvd b" "4 dvd b'" "k < 4"
    and "nat b \<le> nat b' + k" "nat b' + k < nat b + 4"
  shows "b = b'"
  using assms by presburger

lemma run_copies_spec:
  assumes "\<forall>(s, b)\<in>set ops. 0 \<le> b \<and> nat b + 4 \<le> length dst \<and> s + 4 \<le> length src \<and> 4 dvd b"
    and "\<forall>(s, b)\<in>set ops. \<forall>(s', b')\<in>set ops. b = b' \<longrightarrow> s = s'"
  shows "\<exists>d. run_copies ops src dst = Some d \<and> length d = length dst
            \<and> (\<forall>(s, b)\<in>set ops. \<forall>k<4. d ! (nat b + k) = src ! (s + k))"
  using assms
proof (induction ops rule: rev_induct)
  case Nil
  then show ?case by simp
next
  case (snoc op ops)
  obtain s b where op: "op = (s, b)" by (cases op)
  have bnd: "0 \<le> b" "nat b + 4 \<le> length dst" "s + 4 \<le> length src" "4 dvd b"
    using snoc.prems(1) by (auto simp: op)
  have "\<exists>d. run_copies ops src dst = Some d \<and> length d = length dst
            \<and> (\<forall>(s, b)\<in>set ops. \<forall>k<4. d ! (nat b + k) = src ! (s + k))"
    using snoc.prems by (intro snoc.IH) auto
  then obtain d0 where d0: "run_copies ops src dst = Some d0" "length d0 = length dst"
    and old: "\<forall>(s, b)\<in>set ops. \<forall>k<4. d0 ! (nat b + k) = src ! (s + k)"
    by blast
  from copy4_defined[OF bnd(1) _ bnd(3), of d0] bnd(2) d0(2)
  obtain d where c: "copy4 src s d0 b = Some d" by auto
  note cs = copy4_Some[OF c]
  have r: "run_copies (ops @ [op]) src dst = Some d"
    by (simp add: run_copies_append d0 op c)
  have "\<forall>(s', b')\<in>set (ops @ [op]). \<forall>k<4. d ! (nat b' + k) = src ! (s' + k)"
  proof (intro ballI, clarify)
    fix s' b' k assume m: "(s', b') \<in> set (ops @ [op])" and k: "k < (4::nat)"
    have bnd': "0 \<le> b'" "4 dvd b'" using snoc.prems(1) m by auto
    show "d ! (nat b' + k) = src ! (s' + k)"
    proof (cases "nat b \<le> nat b' + k \<and> nat b' + k < nat b + 4")
      case True
      then have "b = b'"
        using chunks_meet[OF bnd(1) bnd'(1) bnd(4) bnd'(2) k] by blast
      moreover have "(s, b) \<in> set (ops @ [op])" by (simp add: op)
      ultimately have "s' = s" using snoc.prems(2) m by blast
      then show ?thesis using cs(2)[OF k] \<open>b = b'\<close> by simp
    next
      case False
      then have "(s', b') \<noteq> (s, b)" using k by auto
      then have "(s', b') \<in> set ops" using m by (auto simp: op)
      then have "d0 ! (nat b' + k) = src ! (s' + k)" using old k by blast
      then show ?thesis using cs(3)[OF False] by simp
    qed
  qed
  then show ?case using r cs(1) d0(2) by simp
qed

subsection \<open>The copies of the two transforms\<close>

lemma blockaddress_cells:
  "blockaddress_at (int rb) (int j) div 4 = int ((j div 8) * (32 * rb) + 4 * (j mod 8))"
proof -
  have "blockaddress_at (int rb) (int j)
      = 4 * int ((j div 8) * (32 * rb) + 4 * (j mod 8))"
    by (simp add: blockaddress_at_def zdiv_int zmod_int algebra_simps)
  then show ?thesis by simp
qed

lemma in_swizzle_copies:
  "(s, b) \<in> set (swizzle_copies rb h) \<longleftrightarrow>
     (\<exists>j<h. \<exists>i<rb. s = j * (4 * rb) + 4 * i
         \<and> b = int ((j div 8) * (32 * rb) + 4 * (j mod 8) + 32 * i))"
proof -
  have cell: "\<And>j i. blockaddress_at (int rb) (int j) div 4 + 32 * int i
      = int ((j div 8) * (32 * rb) + 4 * (j mod 8) + 32 * i)"
    by (simp only: blockaddress_cells of_nat_add of_nat_mult of_nat_numeral)
  have "set (swizzle_copies rb h)
      = (\<Union>j\<in>{0..<h}. (\<lambda>i. (j * (4 * rb) + 4 * i,
            int ((j div 8) * (32 * rb) + 4 * (j mod 8) + 32 * i))) ` {0..<rb})"
    unfolding swizzle_copies_def set_concat set_map set_upt image_image cell ..
  then show ?thesis by (simp only: UN_iff image_iff atLeastLessThan_iff Bex_def prod.inject) blast
qed

lemma in_unswizzle_copies:
  "(s, b) \<in> set (unswizzle_copies rb hb) \<longleftrightarrow>
     (\<exists>y<hb. \<exists>x<rb. \<exists>r<8. s = y * (32 * rb) + 32 * x + 4 * r
         \<and> b = int ((8 * y + r) * (4 * rb) + 4 * x))"
proof -
  have "set (unswizzle_copies rb hb)
      = (\<Union>y\<in>{0..<hb}. \<Union>x\<in>{0..<rb}. (\<lambda>r. (y * (32 * rb) + 32 * x + 4 * r,
            int ((8 * y + r) * (4 * rb) + 4 * x))) ` {0..<8})"
    unfolding unswizzle_copies_def set_concat set_map set_upt image_image ..
  then show ?thesis by (simp only: UN_iff image_iff atLeastLessThan_iff Bex_def prod.inject) blast
qed

lemma swizzle_buffer_copies:
  assumes bw: "int tw * int (tb div 8) = 16 * int rb" and rb: "0 < rb"
    and sz: "ts = 16 * rb * h"
  shows "swizzle_buffer tw tb ts src dst = run_copies (swizzle_copies rb h) src dst"
proof -
  have h: "int ts div (16 * int rb) = int h"
    using rb by (simp add: sz)
  have z: "blockaddress_at (int rb) 0 = 0" by (simp add: blockaddress_at_def)
  have "swizzle_buffer tw tb ts src dst
      = swizzle_rows h 0 (int rb) ((int rb - 1) * 128) src 0 dst (blockaddress_at (int rb) 0)"
    using rb by (simp add: swizzle_buffer_def Let_def bw h z)
  also have "\<dots> = run_copies (swizzle_copies rb h) src dst"
    by (subst swizzle_rows_copies[OF refl]) (simp add: swizzle_copies_def)
  finally show ?thesis .
qed

lemma unswizzle_buffer_copies:
  assumes bw: "int tw * int (tb div 8) = 16 * int rb" and rb: "0 < rb"
    and sz: "ts = 16 * rb * (8 * hb)"
  shows "unswizzle_buffer tw tb ts src dst = run_copies (unswizzle_copies rb hb) src dst"
proof -
  have h: "int ts div (16 * int rb) div 8 = int hb"
    using rb by (simp add: sz)
  have dp: "c_div (16 * int rb - 16) 4 = 4 * int rb - 4"
    using rb by (cases "rb = 1") (auto simp: c_div_def sgn_if)
  have el: "\<And>y x r. (0 + y * (32 * rb) + 32 * x + 4 * r,
              (0 + int y * (16 * int rb * 8) + 16 * int x) div 4
                + int r * (4 + (4 * int rb - 4)))
           = (y * (32 * rb) + 32 * x + 4 * r, int ((8 * y + r) * (4 * rb) + 4 * x))"
  proof -
    fix y x r
    have "0 + int y * (16 * int rb * 8) + 16 * int x = 4 * (32 * int rb * int y + 4 * int x)"
      by simp
    then have "(0 + int y * (16 * int rb * 8) + 16 * int x) div 4
        = 32 * int rb * int y + 4 * int x"
      by simp
    then show "(0 + y * (32 * rb) + 32 * x + 4 * r,
              (0 + int y * (16 * int rb * 8) + 16 * int x) div 4
                + int r * (4 + (4 * int rb - 4)))
           = (y * (32 * rb) + 32 * x + 4 * r, int ((8 * y + r) * (4 * rb) + 4 * x))"
      by (simp add: algebra_simps)
  qed
  have "unswizzle_buffer tw tb ts src dst
      = unswizzle_rows hb rb src 0 dst 0 (4 * int rb - 4) (16 * int rb * 8)"
    using rb by (simp add: unswizzle_buffer_def Let_def bw h dp)
  also have "\<dots> = run_copies (unswizzle_copies rb hb) src dst"
    unfolding unswizzle_rows_copies unswizzle_copies_def el ..
  finally show ?thesis .
qed

lemma uniq_divmod:
  fixes M :: nat
  assumes "c < M" "c' < M" "g * M + c = g' * M + c'"
  shows "g = g' \<and> c = c'"
proof -
  have "(g * M + c) div M = g" "(g' * M + c') div M = g'" using assms(1,2) by simp_all
  then have "g = g'" using assms(3) by simp
  then show ?thesis using assms(3) by simp
qed

lemma swizzle_dst_inj:
  assumes "i < rb" "i' < rb"
    and "(j div 8) * (32 * rb) + 4 * (j mod 8) + 32 * i
       = (j' div 8) * (32 * rb) + 4 * (j' mod 8) + 32 * i'"
  shows "j = j' \<and> i = (i'::nat)"
proof -
  have m: "j mod 8 < 8" "j' mod 8 < 8" by simp_all
  have c: "4 * (j mod 8) + 32 * i < 32 * rb" "4 * (j' mod 8) + 32 * i' < 32 * rb"
    using assms(1,2) m by linarith+
  have e: "(j div 8) * (32 * rb) + (4 * (j mod 8) + 32 * i)
       = (j' div 8) * (32 * rb) + (4 * (j' mod 8) + 32 * i')"
    using assms(3) by simp
  from uniq_divmod[OF c e]
  have d: "j div 8 = j' div 8" and "4 * (j mod 8) + 32 * i = 4 * (j' mod 8) + 32 * i'"
    by simp_all
  then have "i * 8 + j mod 8 = i' * 8 + j' mod 8" by linarith
  from uniq_divmod[OF m this] have i: "i = i'" and r: "j mod 8 = j' mod 8" by simp_all
  have "j = 8 * (j div 8) + j mod 8" "j' = 8 * (j' div 8) + j' mod 8" by simp_all
  then have "j = j'" using d r by simp
  then show ?thesis using i by simp
qed

lemma unswizzle_dst_inj:
  assumes "x < rb" "x' < rb" "r < 8" "r' < 8"
    and "(8 * y + r) * (4 * rb) + 4 * x = (8 * y' + r') * (4 * rb) + 4 * x'"
  shows "y = y' \<and> r = r' \<and> x = (x'::nat)"
proof -
  have c: "4 * x < 4 * rb" "4 * x' < 4 * rb" using assms(1,2) by simp_all
  from uniq_divmod[OF c assms(5)]
  have "y * 8 + r = y' * 8 + r'" and x: "x = x'" by simp_all
  from uniq_divmod[OF assms(3,4) this(1)] x show ?thesis by simp
qed

lemma swizzle_copies_bounds:
  assumes "(s, b) \<in> set (swizzle_copies rb (8 * hb))"
  shows "0 \<le> b \<and> nat b + 4 \<le> 32 * rb * hb \<and> s + 4 \<le> 32 * rb * hb \<and> 4 dvd b"
proof -
  from assms obtain j i where j: "j < 8 * hb" and i: "i < rb"
    and s: "s = j * (4 * rb) + 4 * i"
    and b: "b = int ((j div 8) * (32 * rb) + 4 * (j mod 8) + 32 * i)"
    unfolding in_swizzle_copies by blast
  have "(j + 1) * (4 * rb) \<le> (8 * hb) * (4 * rb)"
    using j by (intro mult_le_mono1) simp
  then have 1: "j * (4 * rb) + 4 * rb \<le> 32 * rb * hb" by (simp add: algebra_simps)
  have "j div 8 < hb" using j by simp
  then have "(j div 8 + 1) * (32 * rb) \<le> hb * (32 * rb)"
    by (intro mult_le_mono1) simp
  then have 2: "(j div 8) * (32 * rb) + 32 * rb \<le> 32 * rb * hb" by (simp add: algebra_simps)
  have m: "j mod 8 < 8" by simp
  have 3: "s + 4 \<le> 32 * rb * hb" using 1 i unfolding s by linarith
  have 4: "(j div 8) * (32 * rb) + 4 * (j mod 8) + 32 * i + 4 \<le> 32 * rb * hb"
    using 2 i m by linarith
  have "(j div 8) * (32 * rb) + 4 * (j mod 8) + 32 * i
      = 4 * ((j div 8) * (8 * rb) + (j mod 8) + 8 * i)" by simp
  then have 5: "4 dvd b" unfolding b by (metis dvd_triv_left of_nat_dvd_iff of_nat_numeral)
  have nb: "nat b = (j div 8) * (32 * rb) + 4 * (j mod 8) + 32 * i" "0 \<le> b"
    unfolding b by (simp_all only: nat_int of_nat_0_le_iff)
  show ?thesis using 3 4 5 nb by simp
qed

lemma unswizzle_copies_bounds:
  assumes "(s, b) \<in> set (unswizzle_copies rb hb)"
  shows "0 \<le> b \<and> nat b + 4 \<le> 32 * rb * hb \<and> s + 4 \<le> 32 * rb * hb \<and> 4 dvd b"
proof -
  from assms obtain y x r where y: "y < hb" and x: "x < rb" and r: "r < 8"
    and s: "s = y * (32 * rb) + 32 * x + 4 * r"
    and b: "b = int ((8 * y + r) * (4 * rb) + 4 * x)"
    unfolding in_unswizzle_copies by blast
  have "(y + 1) * (32 * rb) \<le> hb * (32 * rb)"
    using y by (intro mult_le_mono1) simp
  then have 1: "y * (32 * rb) + 32 * rb \<le> 32 * rb * hb" by (simp add: algebra_simps)
  have "8 * y + r + 1 \<le> 8 * hb" using y r by linarith
  then have "(8 * y + r + 1) * (4 * rb) \<le> (8 * hb) * (4 * rb)"
    by (intro mult_le_mono1)
  then have 2: "(8 * y + r) * (4 * rb) + 4 * rb \<le> 32 * rb * hb" by (simp add: algebra_simps)
  have 3: "s + 4 \<le> 32 * rb * hb" using 1 x r unfolding s by linarith
  have 4: "(8 * y + r) * (4 * rb) + 4 * x + 4 \<le> 32 * rb * hb" using 2 x by linarith
  have "(8 * y + r) * (4 * rb) + 4 * x = 4 * ((8 * y + r) * rb + x)" by simp
  then have 5: "4 dvd b" unfolding b by (metis dvd_triv_left of_nat_dvd_iff of_nat_numeral)
  have nb: "nat b = (8 * y + r) * (4 * rb) + 4 * x" "0 \<le> b"
    unfolding b by (simp_all only: nat_int of_nat_0_le_iff)
  show ?thesis using 3 4 5 nb by simp
qed

lemma swizzle_copies_functional:
  assumes "(s, b) \<in> set (swizzle_copies rb h)" "(s', b) \<in> set (swizzle_copies rb h)"
  shows "s = s'"
proof -
  from assms(1) obtain j i where 1: "i < rb" "s = j * (4 * rb) + 4 * i"
    "b = int ((j div 8) * (32 * rb) + 4 * (j mod 8) + 32 * i)"
    unfolding in_swizzle_copies by blast
  from assms(2) obtain j' i' where 2: "i' < rb" "s' = j' * (4 * rb) + 4 * i'"
    "b = int ((j' div 8) * (32 * rb) + 4 * (j' mod 8) + 32 * i')"
    unfolding in_swizzle_copies by blast
  have "(j div 8) * (32 * rb) + 4 * (j mod 8) + 32 * i
      = (j' div 8) * (32 * rb) + 4 * (j' mod 8) + 32 * i'"
    using 1(3) 2(3) by (simp only: of_nat_eq_iff)
  from swizzle_dst_inj[OF 1(1) 2(1) this] show ?thesis using 1(2) 2(2) by simp
qed

lemma unswizzle_copies_functional:
  assumes "(s, b) \<in> set (unswizzle_copies rb hb)" "(s', b) \<in> set (unswizzle_copies rb hb)"
  shows "s = s'"
proof -
  from assms(1) obtain y x r where 1: "x < rb" "r < 8" "s = y * (32 * rb) + 32 * x + 4 * r"
    "b = int ((8 * y + r) * (4 * rb) + 4 * x)"
    unfolding in_unswizzle_copies by blast
  from assms(2) obtain y' x' r' where 2: "x' < rb" "r' < 8"
    "s' = y' * (32 * rb) + 32 * x' + 4 * r'"
    "b = int ((8 * y' + r') * (4 * rb) + 4 * x')"
    unfolding in_unswizzle_copies by blast
  have "(8 * y + r) * (4 * rb) + 4 * x = (8 * y' + r') * (4 * rb) + 4 * x'"
    using 1(4) 2(4) by (simp only: of_nat_eq_iff)
  from unswizzle_dst_inj[OF 1(1) 2(1) 1(2) 2(2) this] show ?thesis using 1(3) 2(3) by simp
qed

subsection \<open>The round trip\<close>

lemma swizzle_buffer_layout:
  assumes bw: "int tw * int (tb div 8) = 16 * int rb" and rb: "0 < rb"
    and sz: "ts = 16 * rb * (8 * hb)"
    and ls: "length src = ts div 4" and l0: "length dst0 = ts div 4"
  shows "\<exists>px. swizzle_buffer tw tb ts src dst0 = Some px \<and> length px = length src
            \<and> (\<forall>j<8 * hb. \<forall>i<rb. \<forall>k<4.
                  px ! swizzled_index rb j i k = src ! linear_index rb j i k)"
proof -
  have N: "ts div 4 = 32 * rb * hb" by (simp add: sz)
  have bs: "\<forall>(s, b)\<in>set (swizzle_copies rb (8 * hb)).
      0 \<le> b \<and> nat b + 4 \<le> length dst0 \<and> s + 4 \<le> length src \<and> 4 dvd b"
    using swizzle_copies_bounds[of _ _ rb hb] by (auto simp: l0 ls N)
  have fs: "\<forall>(s, b)\<in>set (swizzle_copies rb (8 * hb)).
      \<forall>(s', b')\<in>set (swizzle_copies rb (8 * hb)). b = b' \<longrightarrow> s = s'"
    using swizzle_copies_functional[of _ _ rb "8 * hb"] by blast
  from run_copies_spec[OF bs fs]
  obtain px where px: "run_copies (swizzle_copies rb (8 * hb)) src dst0 = Some px"
    and lpx: "length px = length dst0"
    and npx: "\<forall>(s, b)\<in>set (swizzle_copies rb (8 * hb)). \<forall>k<4. px ! (nat b + k) = src ! (s + k)"
    by blast
  have lay: "\<forall>j<8 * hb. \<forall>i<rb. \<forall>k<4.
      px ! swizzled_index rb j i k = src ! linear_index rb j i k"
  proof (intro allI impI)
    fix j i k assume j: "j < 8 * hb" and i: "i < rb" and k: "k < (4::nat)"
    have ms: "(j * (4 * rb) + 4 * i, int ((j div 8) * (32 * rb) + 4 * (j mod 8) + 32 * i))
        \<in> set (swizzle_copies rb (8 * hb))"
      unfolding in_swizzle_copies using j i by blast
    have "px ! (nat (int ((j div 8) * (32 * rb) + 4 * (j mod 8) + 32 * i)) + k)
        = src ! (j * (4 * rb) + 4 * i + k)"
      using npx ms k by blast
    then show "px ! swizzled_index rb j i k = src ! linear_index rb j i k"
      by (simp only: nat_int swizzled_index_def linear_index_def)
  qed
  have "swizzle_buffer tw tb ts src dst0 = Some px"
    using px swizzle_buffer_copies[OF bw rb sz, of src dst0] by simp
  then show ?thesis using lpx l0 ls lay by auto
qed

lemma unswizzle_buffer_layout:
  assumes bw: "int tw * int (tb div 8) = 16 * int rb" and rb: "0 < rb"
    and sz: "ts = 16 * rb * (8 * hb)"
    and lp: "length px = ts div 4" and l1: "length dst1 = ts div 4"
  shows "\<exists>u. unswizzle_buffer tw tb ts px dst1 = Some u \<and> length u = length px
            \<and> (\<forall>j<8 * hb. \<forall>i<rb. \<forall>k<4.
                  u ! linear_index rb j i k = px ! swizzled_index rb j i k)"
proof -
  have N: "ts div 4 = 32 * rb * hb" by (simp add: sz)
  have bu: "\<forall>(s, b)\<in>set (unswizzle_copies rb hb).
      0 \<le> b \<and> nat b + 4 \<le> length dst1 \<and> s + 4 \<le> length px \<and> 4 dvd b"
    using unswizzle_copies_bounds[of _ _ rb hb] by (auto simp: l1 lp N)
  have fu: "\<forall>(s, b)\<in>set (unswizzle_copies rb hb).
      \<forall>(s', b')\<in>set (unswizzle_copies rb hb). b = b' \<longrightarrow> s = s'"
    using unswizzle_copies_functional[of _ _ rb hb] by blast
  from run_copies_spec[OF bu fu]
  obtain u where u: "run_copies (unswizzle_copies rb hb) px dst1 = Some u"
    and lu: "length u = length dst1"
    and nu: "\<forall>(s, b)\<in>set (unswizzle_copies rb hb). \<forall>k<4. u ! (nat b + k) = px ! (s + k)"
    by blast
  have lay: "\<forall>j<8 * hb. \<forall>i<rb. \<forall>k<4.
      u ! linear_index rb j i k = px ! swizzled_index rb j i k"
  proof (intro allI impI)
    fix j i k assume j: "j < 8 * hb" and i: "i < rb" and k: "k < (4::nat)"
    define y where "y = j div 8"
    define r where "r = j mod 8"
    have y: "y < hb" using j unfolding y_def by simp
    have r: "r < 8" unfolding r_def by simp
    have jyr: "8 * y + r = j" unfolding y_def r_def by simp
    have mu: "(y * (32 * rb) + 32 * i + 4 * r, int ((8 * y + r) * (4 * rb) + 4 * i))
        \<in> set (unswizzle_copies rb hb)"
      unfolding in_unswizzle_copies using y i r by blast
    have "u ! (nat (int ((8 * y + r) * (4 * rb) + 4 * i)) + k)
        = px ! (y * (32 * rb) + 32 * i + 4 * r + k)"
      using nu mu k by blast
    then have 1: "u ! (j * (4 * rb) + 4 * i + k) = px ! (y * (32 * rb) + 32 * i + 4 * r + k)"
      by (simp only: nat_int jyr)
    have "y * (32 * rb) + 32 * i + 4 * r + k = (j div 8) * (32 * rb) + 4 * (j mod 8) + 32 * i + k"
      unfolding y_def r_def by simp
    then have "u ! (j * (4 * rb) + 4 * i + k)
        = px ! ((j div 8) * (32 * rb) + 4 * (j mod 8) + 32 * i + k)"
      using 1 by (simp only:)
    then show "u ! linear_index rb j i k = px ! swizzled_index rb j i k"
      by (simp only: swizzled_index_def linear_index_def)
  qed
  have "unswizzle_buffer tw tb ts px dst1 = Some u"
    using u unswizzle_buffer_copies[OF bw rb sz, of px dst1] by simp
  then show ?thesis using lu l1 lp lay by auto
qed

text \<open>
  The round trip where it holds.  The byte width of the texture is a positive multiple
  of 16 (\<open>16 * rb\<close>), its height a multiple of 8 (\<open>8 * hb\<close>), the size is their product,
  and the source and the two destination blocks have the size of the texture.  Then the
  loops of \<^verbatim>\<open>TextureSwizzle\<close> return a block, and the loops of \<^verbatim>\<open>TextureUnswizzle\<close> on
  that block return the source, cell for cell.
\<close>

lemma swizzle_unswizzle_aligned:
  assumes bw: "int tw * int (tb div 8) = 16 * int rb" and rb: "0 < rb"
    and sz: "ts = 16 * rb * (8 * hb)"
    and ls: "length src = ts div 4" and l0: "length dst0 = ts div 4"
    and l1: "length dst1 = ts div 4"
  shows "\<exists>px. swizzle_buffer tw tb ts src dst0 = Some px \<and> length px = length src
            \<and> unswizzle_buffer tw tb ts px dst1 = Some src"
proof -
  have N: "ts div 4 = 32 * rb * hb" by (simp add: sz)
  have bs: "\<forall>(s, b)\<in>set (swizzle_copies rb (8 * hb)).
      0 \<le> b \<and> nat b + 4 \<le> length dst0 \<and> s + 4 \<le> length src \<and> 4 dvd b"
    using swizzle_copies_bounds[of _ _ rb hb] by (auto simp: l0 ls N)
  have fs: "\<forall>(s, b)\<in>set (swizzle_copies rb (8 * hb)).
      \<forall>(s', b')\<in>set (swizzle_copies rb (8 * hb)). b = b' \<longrightarrow> s = s'"
    using swizzle_copies_functional[of _ _ rb "8 * hb"] by blast
  from run_copies_spec[OF bs fs]
  obtain px where px: "run_copies (swizzle_copies rb (8 * hb)) src dst0 = Some px"
    and lpx: "length px = length dst0"
    and npx: "\<forall>(s, b)\<in>set (swizzle_copies rb (8 * hb)). \<forall>k<4. px ! (nat b + k) = src ! (s + k)"
    by blast
  have bu: "\<forall>(s, b)\<in>set (unswizzle_copies rb hb).
      0 \<le> b \<and> nat b + 4 \<le> length dst1 \<and> s + 4 \<le> length px \<and> 4 dvd b"
    using unswizzle_copies_bounds[of _ _ rb hb] by (auto simp: l0 l1 lpx N)
  have fu: "\<forall>(s, b)\<in>set (unswizzle_copies rb hb).
      \<forall>(s', b')\<in>set (unswizzle_copies rb hb). b = b' \<longrightarrow> s = s'"
    using unswizzle_copies_functional[of _ _ rb hb] by blast
  from run_copies_spec[OF bu fu]
  obtain u where u: "run_copies (unswizzle_copies rb hb) px dst1 = Some u"
    and lu: "length u = length dst1"
    and nu: "\<forall>(s, b)\<in>set (unswizzle_copies rb hb). \<forall>k<4. u ! (nat b + k) = px ! (s + k)"
    by blast
  have "u = src"
  proof (rule nth_equalityI)
    show "length u = length src" by (simp add: lu l1 ls)
  next
    fix n assume "n < length u"
    then have n: "n < (8 * hb) * (4 * rb)" by (simp add: lu l1 N algebra_simps)
    define j where "j = n div (4 * rb)"
    define c where "c = n mod (4 * rb)"
    define i where "i = c div 4"
    define k where "k = c mod 4"
    define y where "y = j div 8"
    define r where "r = j mod 8"
    have jh: "j < 8 * hb" using n unfolding j_def by (simp add: less_mult_imp_div_less)
    have cw: "c < 4 * rb" using rb unfolding c_def by simp
    have i: "i < rb" using cw unfolding i_def by simp
    have k: "k < 4" unfolding k_def by simp
    have y: "y < hb" using jh unfolding y_def by simp
    have r: "r < 8" unfolding r_def by simp
    have cik: "c = 4 * i + k" unfolding i_def k_def by simp
    have jyr: "j = 8 * y + r" unfolding y_def r_def by simp
    have nj: "n = j * (4 * rb) + c" unfolding j_def c_def by (rule div_mult_mod_eq[symmetric])
    have mu: "(y * (32 * rb) + 32 * i + 4 * r, int ((8 * y + r) * (4 * rb) + 4 * i))
        \<in> set (unswizzle_copies rb hb)"
      unfolding in_unswizzle_copies using y i r by blast
    have ms: "(j * (4 * rb) + 4 * i, int ((j div 8) * (32 * rb) + 4 * (j mod 8) + 32 * i))
        \<in> set (swizzle_copies rb (8 * hb))"
      unfolding in_swizzle_copies using jh i by blast
    have "u ! (nat (int ((8 * y + r) * (4 * rb) + 4 * i)) + k)
        = px ! (y * (32 * rb) + 32 * i + 4 * r + k)"
      using nu mu k by blast
    then have 1: "u ! n = px ! (y * (32 * rb) + 32 * i + 4 * r + k)"
      by (simp only: nat_int nj cik jyr add.assoc)
    have "px ! (nat (int ((j div 8) * (32 * rb) + 4 * (j mod 8) + 32 * i)) + k)
        = src ! (j * (4 * rb) + 4 * i + k)"
      using npx ms k by blast
    then have 2: "px ! ((j div 8) * (32 * rb) + 4 * (j mod 8) + 32 * i + k) = src ! n"
      by (simp only: nat_int nj cik add.assoc)
    have "y * (32 * rb) + 32 * i + 4 * r + k = (j div 8) * (32 * rb) + 4 * (j mod 8) + 32 * i + k"
      unfolding y_def r_def by simp
    then have "px ! (y * (32 * rb) + 32 * i + 4 * r + k) = src ! n"
      using 2 by (simp only:)
    then show "u ! n = src ! n" using 1 by (simp only:)
  qed
  then have "unswizzle_buffer tw tb ts px dst1 = Some src"
    using u unswizzle_buffer_copies[OF bw rb sz, of px dst1] by simp
  moreover have "swizzle_buffer tw tb ts src dst0 = Some px"
    using px swizzle_buffer_copies[OF bw rb sz, of src dst0] by simp
  ultimately show ?thesis using lpx l0 ls by auto
qed

lemma swizzle_unswizzle_aligned_example:
  "\<exists>px. swizzle_buffer 8 32 256 (pixels numbered_target) (fresh_block 256) = Some px
         \<and> unswizzle_buffer 8 32 256 px (fresh_block 256) = Some (pixels numbered_target)"
  using swizzle_unswizzle_aligned[of 8 32 2 256 1 "pixels numbered_target"
      "fresh_block 256" "fresh_block 256"]
  by (simp add: numbered_target_def fresh_block_def) blast

text \<open>
  Claim C6.  The claim fails for textures that the backend creates and swizzles but
  that are smaller than a tile.  \<^verbatim>\<open>PSP_CreateTexture\<close> rounds the sides to powers of
  two from 2 on, and \<^verbatim>\<open>TextureSpillToSram\<close> swizzles every linear target it evicts.  For
  the target of 4 by 4 pixels (rows of 16 bytes, 4 rows, 64 bytes) the loops of
  \<^verbatim>\<open>TextureSwizzle\<close> copy the 16 cells in their order, and the loops of
  \<^verbatim>\<open>TextureUnswizzle\<close> copy nothing, the number of rows of tiles being \<open>4 / 8 = 0\<close>: the
  target evicted and then promoted for binding is reported linear and holds the fresh
  block of video memory, none of its 16 cells.  For the static texture of 16 by 2 pixels
  (rows of 64 bytes, 2 rows, 128 bytes) \<^verbatim>\<open>TextureShouldSwizzle\<close> is true, and the second
  copy of \<^verbatim>\<open>TextureSwizzle\<close> stores to the cells from 32 on, past the end of the block
  of 32 cells.
\<close>

theorem round_trip_fails_below_tile:
  "textureWidth numbered_tiny_target = 4 \<and> textureHeight numbered_tiny_target = 4
   \<and> bits numbered_tiny_target = 32 \<and> size_bytes numbered_tiny_target = 64
   \<and> pixels numbered_tiny_target = map (\<lambda>i. Some (of_nat i)) [0..<16]
   \<and> swizzle_buffer 4 32 64 (pixels numbered_tiny_target) (fresh_block 64)
       = Some (pixels numbered_tiny_target)
   \<and> unswizzle_buffer 4 32 64 (pixels numbered_tiny_target) (fresh_block 64)
       = Some (replicate 16 None)
   \<and> \<not> Option.is_none (TextureSpillToSram toy_ops numbered_tiny_target (toy_mem_init 0 1024))
   \<and> fst (spilled numbered_tiny_target (toy_mem_init 0 1024))
   \<and> swizzled (fst (snd (spilled numbered_tiny_target (toy_mem_init 0 1024))))
   \<and> \<not> Option.is_none (TexturePromoteToVram toy_ops
          (fst (snd (spilled numbered_tiny_target (toy_mem_init 0 1024)))) True (toy_mem_init 256 0))
   \<and> fst (promoted (fst (snd (spilled numbered_tiny_target (toy_mem_init 0 1024))))
            (toy_mem_init 256 0))
   \<and> \<not> swizzled (fst (snd (promoted (fst (snd (spilled numbered_tiny_target (toy_mem_init 0 1024))))
                       (toy_mem_init 256 0))))
   \<and> pixels (fst (snd (promoted (fst (snd (spilled numbered_tiny_target (toy_mem_init 0 1024))))
                       (toy_mem_init 256 0))))
       = replicate 16 None
   \<and> \<not> Option.is_none (PSP_CreateTexture toy_ops (psp_init (toy_mem_init 0 1024)) flat_static 16)
   \<and> textureWidth (textures (one_static (toy_mem_init 0 1024)) 16) = 16
   \<and> textureHeight (textures (one_static (toy_mem_init 0 1024)) 16) = 2
   \<and> size_bytes (textures (one_static (toy_mem_init 0 1024)) 16) = 128
   \<and> TextureShouldSwizzle (textures (one_static (toy_mem_init 0 1024)) 16)
        (flat_static\<lparr>internal := 16\<rparr>)
   \<and> swizzle_buffer 16 32 128 (pixels (textures (one_static (toy_mem_init 0 1024)) 16))
        (fresh_block 128) = None
   \<and> TextureActivate toy_ops (one_static (toy_mem_init 0 1024)) (flat_static\<lparr>internal := 16\<rparr>)
       = None"
  by code_simp

subsection \<open>The layout of a block that changes tier\<close>

text \<open>
  Claim C5, as amended.  The rows of the target are \<open>rb > 0\<close> chunks of 16 bytes, its
  height is \<open>8 * hb\<close> rows, and its block has the size of the texture.  Then
  \<^verbatim>\<open>TextureSpillToSram\<close> returns, with success when \<^verbatim>\<open>SDL_malloc\<close> gives a block, and
  the target it has evicted is swizzled, in that block of the C heap: when it was
  linear, cell \<open>k\<close> of chunk \<open>i\<close> of row \<open>j\<close> now stands at its place in the swizzled
  layout, for every row, chunk and cell; when it was swizzled, the cells are copied as
  they are.  And \<^verbatim>\<open>TexturePromoteToVram\<close> for binding returns when the target is
  swizzled or \<^verbatim>\<open>vramalloc\<close> gives a block, and the target it has promoted is linear:
  when it was swizzled, every cell stands at its place in the linear layout again; when
  it was linear, the cells are copied as they are.
\<close>

theorem migration_layout:
  assumes bw: "int (textureWidth t) * int (bits t div 8) = 16 * int rb" and rb: "0 < rb"
    and sz: "size_bytes t = 16 * rb * (8 * hb)"
    and lp: "length (pixels t) = size_bytes t div 4"
  shows "TextureSpillToSram ops t m \<noteq> None
   \<and> (fst (SDL_malloc ops (size_bytes t) m) \<noteq> 0 \<longrightarrow>
        (\<exists>t1 m1. TextureSpillToSram ops t m = Some (True, t1, m1)))
   \<and> (TextureSpillToSram ops t m = Some (True, t1, m1) \<longrightarrow>
        swizzled t1 \<and> data t1 = fst (SDL_malloc ops (size_bytes t) m)
        \<and> length (pixels t1) = length (pixels t)
        \<and> (if swizzled t then pixels t1 = pixels t
           else swizzle_buffer (textureWidth t) (bits t) (size_bytes t) (pixels t)
                  (fresh_block (size_bytes t)) = Some (pixels t1)
              \<and> (\<forall>j<8 * hb. \<forall>i<rb. \<forall>k<4.
                    pixels t1 ! swizzled_index rb j i k = pixels t ! linear_index rb j i k)))
   \<and> (swizzled t \<or> fst (vramalloc ops (size_bytes t) m) \<noteq> 0 \<longrightarrow>
        TexturePromoteToVram ops t True m \<noteq> None)
   \<and> (TexturePromoteToVram ops t True m = Some (True, t2, m2) \<longrightarrow>
        \<not> swizzled t2 \<and> length (pixels t2) = length (pixels t)
        \<and> (if swizzled t
           then unswizzle_buffer (textureWidth t) (bits t) (size_bytes t) (pixels t)
                  (fresh_block (size_bytes t)) = Some (pixels t2)
              \<and> (\<forall>j<8 * hb. \<forall>i<rb. \<forall>k<4.
                    pixels t2 ! linear_index rb j i k = pixels t ! swizzled_index rb j i k)
           else pixels t2 = pixels t \<and> data t2 = fst (vramalloc ops (size_bytes t) m)))"
proof -
  have lf: "length (fresh_block (size_bytes t)) = size_bytes t div 4"
    by (simp add: fresh_block_def)
  have nz: "int (textureWidth t) * int (bits t div 8) \<noteq> 0" using bw rb by simp
  from swizzle_buffer_layout[OF bw rb sz lp lf]
  obtain px where px: "swizzle_buffer (textureWidth t) (bits t) (size_bytes t) (pixels t)
        (fresh_block (size_bytes t)) = Some px"
    and lpx: "length px = length (pixels t)"
    and npx: "\<forall>j<8 * hb. \<forall>i<rb. \<forall>k<4.
        px ! swizzled_index rb j i k = pixels t ! linear_index rb j i k"
    by blast
  from unswizzle_buffer_layout[OF bw rb sz lp lf]
  obtain u where u: "unswizzle_buffer (textureWidth t) (bits t) (size_bytes t) (pixels t)
        (fresh_block (size_bytes t)) = Some u"
    and lu: "length u = length (pixels t)"
    and nu: "\<forall>j<8 * hb. \<forall>i<rb. \<forall>k<4.
        u ! linear_index rb j i k = pixels t ! swizzled_index rb j i k"
    by blast
  have 1: "TextureSpillToSram ops t m \<noteq> None"
    using px nz by (auto simp: TextureSpillToSram_def TextureSwizzle_def Let_def split_beta)
  have 2: "fst (SDL_malloc ops (size_bytes t) m) \<noteq> 0 \<longrightarrow>
        (\<exists>t1 m1. TextureSpillToSram ops t m = Some (True, t1, m1))"
    using px nz by (auto simp: TextureSpillToSram_def TextureSwizzle_def Let_def split_beta)
  have 3: "TextureSpillToSram ops t m = Some (True, t1, m1) \<longrightarrow>
        swizzled t1 \<and> data t1 = fst (SDL_malloc ops (size_bytes t) m)
        \<and> length (pixels t1) = length (pixels t)
        \<and> (if swizzled t then pixels t1 = pixels t
           else swizzle_buffer (textureWidth t) (bits t) (size_bytes t) (pixels t)
                  (fresh_block (size_bytes t)) = Some (pixels t1)
              \<and> (\<forall>j<8 * hb. \<forall>i<rb. \<forall>k<4.
                    pixels t1 ! swizzled_index rb j i k = pixels t ! linear_index rb j i k))"
  proof
    assume s: "TextureSpillToSram ops t m = Some (True, t1, m1)"
    from TextureSpillToSram_cases[OF s]
    have c: "swizzled t1" "data t1 = fst (SDL_malloc ops (size_bytes t) m)"
      "swizzled t \<longrightarrow> pixels t1 = pixels t"
      "\<not> swizzled t \<longrightarrow> swizzle_buffer (textureWidth t) (bits t) (size_bytes t) (pixels t)
                      (fresh_block (size_bytes t)) = Some (pixels t1)"
      by auto
    show "swizzled t1 \<and> data t1 = fst (SDL_malloc ops (size_bytes t) m)
        \<and> length (pixels t1) = length (pixels t)
        \<and> (if swizzled t then pixels t1 = pixels t
           else swizzle_buffer (textureWidth t) (bits t) (size_bytes t) (pixels t)
                  (fresh_block (size_bytes t)) = Some (pixels t1)
              \<and> (\<forall>j<8 * hb. \<forall>i<rb. \<forall>k<4.
                    pixels t1 ! swizzled_index rb j i k = pixels t ! linear_index rb j i k))"
    proof (cases "swizzled t")
      case True
      then show ?thesis using c by simp
    next
      case False
      then have "pixels t1 = px" using c(4) px by simp
      then show ?thesis using False c px lpx npx by simp
    qed
  qed
  have 4: "swizzled t \<or> fst (vramalloc ops (size_bytes t) m) \<noteq> 0 \<longrightarrow>
        TexturePromoteToVram ops t True m \<noteq> None"
    using u nz
    by (auto simp: TexturePromoteToVram_def TextureUnswizzle_def Let_def split_beta)
  have 5: "TexturePromoteToVram ops t True m = Some (True, t2, m2) \<longrightarrow>
        \<not> swizzled t2 \<and> length (pixels t2) = length (pixels t)
        \<and> (if swizzled t
           then unswizzle_buffer (textureWidth t) (bits t) (size_bytes t) (pixels t)
                  (fresh_block (size_bytes t)) = Some (pixels t2)
              \<and> (\<forall>j<8 * hb. \<forall>i<rb. \<forall>k<4.
                    pixels t2 ! linear_index rb j i k = pixels t ! swizzled_index rb j i k)
           else pixels t2 = pixels t \<and> data t2 = fst (vramalloc ops (size_bytes t) m))"
  proof
    assume p: "TexturePromoteToVram ops t True m = Some (True, t2, m2)"
    from TexturePromoteToVram_layout[OF p]
    have c: "\<not> swizzled t2"
      "swizzled t \<longrightarrow> unswizzle_buffer (textureWidth t) (bits t) (size_bytes t) (pixels t)
                 (fresh_block (size_bytes t)) = Some (pixels t2)"
      "\<not> swizzled t \<longrightarrow> pixels t2 = pixels t \<and> data t2 = fst (vramalloc ops (size_bytes t) m)"
      by (auto split: if_splits)
    show "\<not> swizzled t2 \<and> length (pixels t2) = length (pixels t)
        \<and> (if swizzled t
           then unswizzle_buffer (textureWidth t) (bits t) (size_bytes t) (pixels t)
                  (fresh_block (size_bytes t)) = Some (pixels t2)
              \<and> (\<forall>j<8 * hb. \<forall>i<rb. \<forall>k<4.
                    pixels t2 ! linear_index rb j i k = pixels t ! swizzled_index rb j i k)
           else pixels t2 = pixels t \<and> data t2 = fst (vramalloc ops (size_bytes t) m))"
    proof (cases "swizzled t")
      case True
      then have "pixels t2 = u" using c(2) u by simp
      then show ?thesis using True c u lu nu by simp
    next
      case False
      then show ?thesis using c by simp
    qed
  qed
  show ?thesis using 1 2 3 4 5 by blast
qed

text \<open>
  The target of 8 by 8 pixels whose cells are numbered (rows of two chunks, one row of
  tiles): evicted, it is swizzled, and the first chunk of row 1, the cells 8 to 11, stands
  at the places 4 to 7; promoted for binding after that, it is linear and the cell at
  the place 8 is the cell 8 again.
\<close>

theorem migration_layout_witness:
  "int (textureWidth numbered_target) * int (bits numbered_target div 8) = 16 * int 2
   \<and> size_bytes numbered_target = 16 * 2 * (8 * 1)
   \<and> length (pixels numbered_target) = size_bytes numbered_target div 4
   \<and> \<not> swizzled numbered_target
   \<and> TextureSpillToSram toy_ops numbered_target (toy_mem_init 0 1024)
       = Some (True, fst (snd (spilled numbered_target (toy_mem_init 0 1024))),
               snd (snd (spilled numbered_target (toy_mem_init 0 1024))))
   \<and> swizzled (fst (snd (spilled numbered_target (toy_mem_init 0 1024))))
   \<and> length (pixels (fst (snd (spilled numbered_target (toy_mem_init 0 1024))))) = 64
   \<and> pixels (fst (snd (spilled numbered_target (toy_mem_init 0 1024)))) ! 4 = Some 8
   \<and> pixels (fst (snd (spilled numbered_target (toy_mem_init 0 1024)))) ! 7 = Some 11
   \<and> pixels (fst (snd (spilled numbered_target (toy_mem_init 0 1024)))) ! 32 = Some 4
   \<and> TexturePromoteToVram toy_ops (fst (snd (spilled numbered_target (toy_mem_init 0 1024)))) True
         (toy_mem_init 256 0)
       = Some (True,
           fst (snd (promoted (fst (snd (spilled numbered_target (toy_mem_init 0 1024))))
                       (toy_mem_init 256 0))),
           snd (snd (promoted (fst (snd (spilled numbered_target (toy_mem_init 0 1024))))
                       (toy_mem_init 256 0))))
   \<and> \<not> swizzled (fst (snd (promoted (fst (snd (spilled numbered_target (toy_mem_init 0 1024))))
                       (toy_mem_init 256 0))))
   \<and> pixels (fst (snd (promoted (fst (snd (spilled numbered_target (toy_mem_init 0 1024))))
                       (toy_mem_init 256 0)))) ! 8 = Some 8"
proof -
  let ?m = "toy_mem_init 0 1024"
  let ?t1 = "fst (snd (spilled numbered_target ?m))"
  let ?m1 = "snd (snd (spilled numbered_target ?m))"
  let ?m2 = "toy_mem_init 256 0"
  let ?t2 = "fst (snd (promoted ?t1 ?m2))"
  let ?m3 = "snd (snd (promoted ?t1 ?m2))"
  have g: "int (textureWidth numbered_target) * int (bits numbered_target div 8) = 16 * int 2"
    "0 < (2::nat)"
    "size_bytes numbered_target = 16 * 2 * (8 * 1)"
    "length (pixels numbered_target) = size_bytes numbered_target div 4"
    by code_simp+
  have e: "\<not> swizzled numbered_target" "fst (spilled numbered_target ?m)"
    "pixels numbered_target ! 8 = Some 8" "pixels numbered_target ! 11 = Some 11"
    "pixels numbered_target ! 4 = Some 4"
    by code_simp+
  note th1 = migration_layout[OF g, of toy_ops ?m ?t1 ?m1]
  have "\<not> Option.is_none (TextureSpillToSram toy_ops numbered_target ?m)"
    using th1[THEN conjunct1] by (simp add: Option.is_none_def)
  from spilled_eq[OF this] e(2)
  have s: "TextureSpillToSram toy_ops numbered_target ?m = Some (True, ?t1, ?m1)" by simp
  from th1[THEN conjunct2, THEN conjunct2, THEN conjunct1, rule_format, OF s] e(1)
  have s1: "swizzled ?t1" "length (pixels ?t1) = length (pixels numbered_target)"
    and sl: "\<forall>j<8 * 1. \<forall>i<2. \<forall>k<4.
        pixels ?t1 ! swizzled_index 2 j i k = pixels numbered_target ! linear_index 2 j i k"
    by simp_all
  have p1: "pixels ?t1 ! 4 = Some 8"
    using sl[rule_format, of 1 0 0] e(3) by (simp add: swizzled_index_def linear_index_def)
  have p2: "pixels ?t1 ! 7 = Some 11"
    using sl[rule_format, of 1 0 3] e(4) by (simp add: swizzled_index_def linear_index_def)
  have p3: "pixels ?t1 ! 32 = Some 4"
    using sl[rule_format, of 0 1 0] e(5) by (simp add: swizzled_index_def linear_index_def)
  have l1: "length (pixels ?t1) = 64" using s1(2) g(3,4) by simp
  from TextureSpillToSram_cases[OF s]
  have k: "size_bytes ?t1 = size_bytes numbered_target"
    "textureWidth ?t1 = textureWidth numbered_target" "bits ?t1 = bits numbered_target"
    by auto
  have g2: "int (textureWidth ?t1) * int (bits ?t1 div 8) = 16 * int 2"
    "0 < (2::nat)"
    "size_bytes ?t1 = 16 * 2 * (8 * 1)"
    "length (pixels ?t1) = size_bytes ?t1 div 4"
    using g s1(2) by (simp_all add: k)
  note th2 = migration_layout[OF g2, of toy_ops ?m2 _ _ ?t2 ?m3]
  have e2: "fst (promoted ?t1 ?m2)" by code_simp
  have "\<not> Option.is_none (TexturePromoteToVram toy_ops ?t1 True ?m2)"
    using th2[THEN conjunct2, THEN conjunct2, THEN conjunct2, THEN conjunct1] s1(1)
    by (simp add: Option.is_none_def)
  from promoted_eq[OF this] e2
  have p: "TexturePromoteToVram toy_ops ?t1 True ?m2 = Some (True, ?t2, ?m3)" by simp
  from th2[THEN conjunct2, THEN conjunct2, THEN conjunct2, THEN conjunct2, rule_format, OF p] s1(1)
  have q1: "\<not> swizzled ?t2"
    and ql: "\<forall>j<8 * 1. \<forall>i<2. \<forall>k<4.
        pixels ?t2 ! linear_index 2 j i k = pixels ?t1 ! swizzled_index 2 j i k"
    by simp_all
  have q2: "pixels ?t2 ! 8 = Some 8"
    using ql[rule_format, of 1 0 0] p1 by (simp add: swizzled_index_def linear_index_def)
  show ?thesis using g(1,3,4) e(1) s s1(1) l1 p1 p2 p3 p q1 q2 by blast
qed

text \<open>
  The claim as it is written fails: a linear target comes out of the eviction swizzled
  (cells 0 to 3 of row 0 are followed by cells 8 to 11, the start of row 1), a swizzled
  target comes out of the eviction swizzled as it was, and promoting that swizzled
  target for binding gives back the linear order.
\<close>

theorem eviction_swizzles_promotion_linearises:
  "\<not> swizzled numbered_target
   \<and> fst (spilled numbered_target (toy_mem_init 0 1024))
   \<and> swizzled (fst (snd (spilled numbered_target (toy_mem_init 0 1024))))
   \<and> take 8 (pixels (fst (snd (spilled numbered_target (toy_mem_init 0 1024)))))
        = [Some 0, Some 1, Some 2, Some 3, Some 8, Some 9, Some 10, Some 11]
   \<and> fst (spilled (fst (snd (spilled numbered_target (toy_mem_init 0 1024)))) (toy_mem_init 0 1024))
   \<and> swizzled (fst (snd (spilled (fst (snd (spilled numbered_target (toy_mem_init 0 1024))))
                   (toy_mem_init 0 1024))))
   \<and> fst (promoted (fst (snd (spilled numbered_target (toy_mem_init 0 1024)))) (toy_mem_init 256 0))
   \<and> \<not> swizzled (fst (snd (promoted (fst (snd (spilled numbered_target (toy_mem_init 0 1024))))
                       (toy_mem_init 256 0))))
   \<and> pixels (fst (snd (promoted (fst (snd (spilled numbered_target (toy_mem_init 0 1024))))
                       (toy_mem_init 256 0))))
       = pixels numbered_target"
  by code_simp

end
